theory Spec2Isabelle
  imports Complex_Main "HOL-Library.Word" "HOL-Library.Log_Nat"
begin

section \<open>The autograding runner: data\<close>

subsection \<open>Strings and numbers of the host language\<close>

text \<open>
  A JavaScript string is a sequence of UTF-16 code units. String literals of the source are
  ASCII and are written through \<open>lit\<close>.
\<close>

type_synonym jsstring = "16 word list"

definition lit :: "string \<Rightarrow> jsstring" where
  "lit s = map (\<lambda>c. of_nat (of_char c)) s"

text \<open>
  A JavaScript number. The model keeps the exact mathematical value of every finite number and
  the value \<open>NaN\<close>, which the code can produce (\<open>parseFloat('')\<close>). The infinities are not
  modelled. The two products of line 165, whose operand is any fraction of a minute, are rounded
  to binary64 as the code rounds them (\<open>num_mul64\<close> below); the other operations are exact on
  \<open>Num\<close>.
\<close>

datatype number = NaN | Num rat

text \<open>The operators of the source on numbers; each result is \<open>NaN\<close> when an operand is.\<close>

fun num_add :: "number \<Rightarrow> number \<Rightarrow> number" where
  "num_add (Num a) (Num b) = Num (a + b)"
| "num_add _ _ = NaN"

fun num_sub :: "number \<Rightarrow> number \<Rightarrow> number" where
  "num_sub (Num a) (Num b) = Num (a - b)"
| "num_sub _ _ = NaN"

fun num_mul :: "number \<Rightarrow> number \<Rightarrow> number" where
  "num_mul (Num a) (Num b) = Num (a * b)"
| "num_mul _ _ = NaN"

text \<open>
  Rounding to binary64, to the nearest value with ties to the even significand. \<open>floor_log2 x\<close>
  is the exponent \<open>e\<close> of a positive \<open>x\<close>, with \<open>2 powi e \<le> x < 2 powi (e + 1)\<close>. The unit in
  the last place of \<open>x\<close> is \<open>2 powi (e - 52)\<close>, and \<open>2 powi (- 1074)\<close> for the subnormal numbers.
  A magnitude beyond the binary64 range stays finite.
\<close>

definition round_half_even :: "rat \<Rightarrow> int" where
  "round_half_even q =
     (let f = \<lfloor>q\<rfloor>; d = q - of_int f
      in if d < 1 / 2 then f else if 1 / 2 < d then f + 1 else if even f then f else f + 1)"

definition floor_log2 :: "rat \<Rightarrow> int" where
  "floor_log2 x =
     (let e = bitlen (fst (quotient_of x)) - bitlen (snd (quotient_of x))
      in if 2 powi e \<le> x then e else e - 1)"

definition round64 :: "rat \<Rightarrow> rat" where
  "round64 x =
     (if x = 0 then 0
      else (let u = max (floor_log2 \<bar>x\<bar>) (- 1022) - 52
            in of_int (round_half_even (x / 2 powi u)) * 2 powi u))"

text \<open>The product \<open>a * b\<close> of binary64.\<close>

fun num_mul64 :: "number \<Rightarrow> number \<Rightarrow> number" where
  "num_mul64 (Num a) (Num b) = Num (round64 (a * b))"
| "num_mul64 _ _ = NaN"

fun num_div :: "number \<Rightarrow> number \<Rightarrow> number" where
  "num_div (Num a) (Num b) = (if b = 0 then NaN else Num (a / b))"
| "num_div _ _ = NaN"

text \<open>\<open>a > b\<close>: false when an operand is \<open>NaN\<close>.\<close>

fun num_gt :: "number \<Rightarrow> number \<Rightarrow> bool" where
  "num_gt (Num a) (Num b) = (a > b)"
| "num_gt _ _ = False"

text \<open>Truthiness of a number: \<open>0\<close> and \<open>NaN\<close> are falsy.\<close>

fun truthy :: "number \<Rightarrow> bool" where
  "truthy NaN = False"
| "truthy (Num a) = (a \<noteq> 0)"

text \<open>\<open>a || b\<close> on numbers.\<close>

definition num_or :: "number \<Rightarrow> number \<Rightarrow> number" where
  "num_or a b = (if truthy a then a else b)"

text \<open>\<open>Math.floor\<close>, and \<open>Math.round\<close>, which rounds a tie towards plus infinity.\<close>

fun Math_floor :: "number \<Rightarrow> number" where
  "Math_floor NaN = NaN"
| "Math_floor (Num a) = Num (of_int \<lfloor>a\<rfloor>)"

fun Math_round :: "number \<Rightarrow> number" where
  "Math_round NaN = NaN"
| "Math_round (Num a) = Num (of_int \<lfloor>a + 1 / 2\<rfloor>)"

text \<open>
  \<open>a === b\<close> where \<open>b\<close> may be \<open>undefined\<close> (\<open>None\<close>): a number is never strictly equal
  to \<open>undefined\<close>, and \<open>NaN\<close> is not equal to itself.
\<close>

fun strict_eq :: "number \<Rightarrow> number option \<Rightarrow> bool" where
  "strict_eq (Num a) (Some (Num b)) = (a = b)"
| "strict_eq _ _ = False"

subsection \<open>The score marker: the regular expression and \<open>parseFloat\<close>\<close>

text \<open>
  The pattern is \<^verbatim>\<open>/\[overall score: ([\d\.]*)\]\s*$/g\<close>. The character classes:
  \<^verbatim>\<open>\d\<close> is an ASCII digit; \<^verbatim>\<open>[\d\.]\<close> adds the dot; \<^verbatim>\<open>\s\<close> is the white space and
  the line terminators of ECMAScript.
\<close>

definition is_digit :: "16 word \<Rightarrow> bool" where
  "is_digit c = (0x30 \<le> c \<and> c \<le> 0x39)"

definition is_score_char :: "16 word \<Rightarrow> bool" where
  "is_score_char c = (is_digit c \<or> c = 0x2E)"

definition is_space :: "16 word \<Rightarrow> bool" where
  "is_space c =
     (c \<in> set [0x09, 0x0A, 0x0B, 0x0C, 0x0D, 0x20, 0xA0, 0x1680, 0x2028, 0x2029, 0x202F,
                0x205F, 0x3000, 0xFEFF]
      \<or> (0x2000 \<le> c \<and> c \<le> 0x200A))"

definition marker_open :: jsstring where
  "marker_open = lit ''[overall score: ''"

definition rbracket :: "16 word" where
  "rbracket = 0x5D"

fun strip_prefix :: "'a list \<Rightarrow> 'a list \<Rightarrow> 'a list option" where
  "strip_prefix [] s = Some s"
| "strip_prefix (p # ps) [] = None"
| "strip_prefix (p # ps) (c # cs) = (if p = c then strip_prefix ps cs else None)"

text \<open>
  One attempt of the matcher at the start of \<open>s\<close>: the literal opening, the greedy run of
  \<^verbatim>\<open>[\d\.]*\<close> (the capture), the closing bracket, the greedy run of \<^verbatim>\<open>\s*\<close>, and the
  end of the input (\<^verbatim>\<open>$\<close> without the \<^verbatim>\<open>m\<close> flag). The result is the capture
  group. Lemma \<open>match_at_iff\<close> below shows that the greedy runs lose no match.
\<close>

definition match_at :: "jsstring \<Rightarrow> jsstring option" where
  "match_at s =
     (case strip_prefix marker_open s of
        None \<Rightarrow> None
      | Some r \<Rightarrow>
          (case dropWhile is_score_char r of
             [] \<Rightarrow> None
           | c # r' \<Rightarrow>
               if c = rbracket \<and> dropWhile is_space r' = []
               then Some (takeWhile is_score_char r) else None))"

text \<open>
  \<open>regexp.exec(output)\<close> on a fresh regular expression (\<open>lastIndex = 0\<close>): the start
  positions are tried from left to right; the result is the capture group \<open>match[1]\<close> of the
  first position that matches, \<open>None\<close> for \<open>null\<close>.
\<close>

fun regexp_exec :: "jsstring \<Rightarrow> jsstring option" where
  "regexp_exec [] = match_at []"
| "regexp_exec (c # cs) =
     (case match_at (c # cs) of Some m \<Rightarrow> Some m | None \<Rightarrow> regexp_exec cs)"

text \<open>
  What the pattern means, without an algorithm: the text from the start position to the end of
  the input is the opening, a capture of digits and dots, the bracket, and white space.
\<close>

definition matches_at :: "jsstring \<Rightarrow> jsstring \<Rightarrow> bool" where
  "matches_at s d \<longleftrightarrow>
     (\<exists>ws. s = marker_open @ d @ rbracket # ws \<and> list_all is_score_char d
           \<and> list_all is_space ws)"

text \<open>
  \<open>parseFloat\<close> on the strings the code gives it. The capture group holds digits and dots
  only, so the model covers the unsigned decimal literals without exponent: the longest prefix
  of the shape \<open>digits\<close>, \<open>digits.\<close>, \<open>digits.digits\<close> or \<open>.digits\<close> is parsed; when there is
  none the result is \<open>NaN\<close>.
\<close>

definition digits_value :: "jsstring \<Rightarrow> nat" where
  "digits_value ds = foldl (\<lambda>acc c. 10 * acc + unat (c - 0x30)) 0 ds"

definition parseFloat :: "jsstring \<Rightarrow> number" where
  "parseFloat s =
     (let ip = takeWhile is_digit s; r = dropWhile is_digit s
      in case r of
           [] \<Rightarrow> if ip = [] then NaN else Num (of_nat (digits_value ip))
         | c # r' \<Rightarrow>
             if c = 0x2E
             then (let fp = takeWhile is_digit r'
                   in if ip = [] \<and> fp = [] then NaN
                      else Num (of_nat (digits_value ip)
                                + of_nat (digits_value fp) / 10 ^ length fp))
             else if ip = [] then NaN else Num (of_nat (digits_value ip)))"

text \<open>Lines 155 to 160 of \<open>runCommand\<close>: the score of a captured output.\<close>

definition extract_score :: "jsstring \<Rightarrow> number" where
  "extract_score output =
     (case regexp_exec output of Some m \<Rightarrow> parseFloat m | None \<Rightarrow> Num 0)"

subsection \<open>Tests and errors\<close>

datatype TestComparison = Exact | Included | Regex

text \<open>
  The interface \<open>Test\<close>. An optional field is an \<open>option\<close>. The fields \<open>setup\<close> and \<open>timeout\<close>
  are declared without a question mark, but the records are read from a file and the code
  guards both against a missing value (\<open>!test.setup\<close>, \<open>test.timeout || 1\<close>), so the model
  admits \<open>None\<close> for them as well. The fields \<open>setup\<close>, \<open>run\<close>, \<open>input\<close> and
  \<open>output\<close> are called \<open>setup_cmd\<close>, \<open>run_cmd\<close>, \<open>input_text\<close> and \<open>output_text\<close>: \<open>run\<close> is the
  name of the function, the other three are keywords of Isabelle.
\<close>

record Test =
  name :: jsstring
  setup_cmd :: "jsstring option"
  run_cmd :: jsstring
  input_text :: "jsstring option"
  output_text :: "jsstring option"
  timeout :: "number option"
  points :: "number option"
  comparison :: TestComparison

text \<open>
  An error object: its class and its message. A message built by a template literal is kept as
  the list of its pieces, the interpolated values not yet printed.
\<close>

datatype error_class = Error | TestError | TestTimeoutError | TestOutputError

datatype fragment =
    Str jsstring
  | NumberValue number
  | CodeValue "int option"
  | SignalValue "jsstring option"

datatype js_error = JsError (error_class: error_class) (message: "fragment list")

text \<open>\<^verbatim>\<open>new TestTimeoutError(`Setup timed out in ${timeout} milliseconds`)\<close>\<close>

definition TestTimeoutError_new :: "number \<Rightarrow> js_error" where
  "TestTimeoutError_new ms =
     JsError TestTimeoutError
       [Str (lit ''Setup timed out in ''), NumberValue ms, Str (lit '' milliseconds'')]"

text \<open>\<^verbatim>\<open>new TestError(`Error: Exit with code: ${code} and signal: ${signal}`)\<close>\<close>

definition TestError_new :: "int option \<Rightarrow> jsstring option \<Rightarrow> js_error" where
  "TestError_new code signal =
     JsError TestError
       [Str (lit ''Error: Exit with code: ''), CodeValue code, Str (lit '' and signal: ''),
        SignalValue signal]"

subsection \<open>What the program does to the outside world\<close>

text \<open>
  The lines written by \<open>log\<close>, one constructor for each call in \<open>runAll\<close>: the empty line, the
  two workflow commands around the token, the header, the green and the red line of a test, the
  two lines of the final banner, and the points summary.
\<close>

datatype log_line =
    Blank
  | StopCommands jsstring
  | Header jsstring
  | Passed jsstring
  | Failed jsstring
  | ResumeCommands jsstring
  | AllTestsPassed
  | Sparkles
  | PointsLine number number

text \<open>
  Every action on the outside world, in the order in which it happens: a spawned shell command
  with its working directory, the writes to the console, the writes to the child's standard
  input, the call of \<open>kill\<close> from \<open>tree-kill\<close> on the child's pid, and the calls into
  \<open>@actions/core\<close> and \<open>./output\<close>.
\<close>

datatype effect =
    Spawn jsstring jsstring
  | StdoutWrite jsstring
  | StderrWrite jsstring
  | StdinWrite jsstring
  | StdinEnd
  | Kill
  | Log log_line
  | SetFailed "fragment list"
  | SetOutput number number
  | SetCheckRunOutput number number

text \<open>
  \<open>indent\<close>: \<^verbatim>\<open>str.replace(/\r\n/gim, '\n').replace(/\n/gim, '\n  ')\<close>. A chunk is taken as the
  string it converts to.
\<close>

fun crlf_to_lf :: "jsstring \<Rightarrow> jsstring" where
  "crlf_to_lf (a # b # cs) =
     (if a = 0x0D \<and> b = 0x0A then 0x0A # crlf_to_lf cs else a # crlf_to_lf (b # cs))"
| "crlf_to_lf cs = cs"

fun lf_indent :: "jsstring \<Rightarrow> jsstring" where
  "lf_indent [] = []"
| "lf_indent (c # cs) =
     (if c = 0x0A then 0x0A # 0x20 # 0x20 # lf_indent cs else c # lf_indent cs)"

definition indent :: "jsstring \<Rightarrow> jsstring" where
  "indent text = lf_indent (crlf_to_lf text)"

section \<open>The process runner\<close>

subsection \<open>Events of a child process\<close>

text \<open>
  What the event loop delivers while a child runs, in the order of delivery: a chunk of the
  child's standard output or standard error, the \<open>exit\<close> event with code and signal (either
  may be \<open>null\<close>), the \<open>error\<close> event, and the expiry of the timer set by \<open>waitForExit\<close>.
\<close>

datatype event =
    StdoutData jsstring
  | StderrData jsstring
  | Exit "int option" "jsstring option"
  | ErrorEvent js_error
  | TimerFired

text \<open>
  The state of one child while the runner waits for it. The first five fields belong to
  \<open>waitForExit\<close>: the flag \<open>timedOut\<close>, whether the timer is still pending, whether the
  listeners registered with \<open>once\<close> are still there, and the state of the promise (\<open>None\<close>
  while pending, \<open>Inr ()\<close> resolved, \<open>Inl e\<close> rejected). \<open>buffer\<close> is the variable \<open>output\<close>
  of \<open>runCommand\<close>; \<open>effects\<close> are the actions so far.
\<close>

record child =
  timedOut :: bool
  timer :: bool
  on_exit :: bool
  on_error :: bool
  promise :: "(js_error + unit) option"
  buffer :: jsstring
  effects :: "effect list"

definition child_init :: "effect list \<Rightarrow> child" where
  "child_init fx =
     \<lparr>timedOut = False, timer = True, on_exit = True, on_error = True, promise = None,
      buffer = [], effects = fx\<rparr>"

text \<open>\<open>resolve\<close> and \<open>reject\<close>: only the first call settles the promise.\<close>

definition settle :: "js_error + unit \<Rightarrow> child \<Rightarrow> child" where
  "settle r c = (case promise c of None \<Rightarrow> c\<lparr>promise := Some r\<rparr> | Some _ \<Rightarrow> c)"

text \<open>
  The three callbacks of \<open>waitForExit\<close>. A timer that was cleared or has fired does not fire; a
  listener registered with \<open>once\<close> is removed when it is called.
\<close>

fun waitForExit_step :: "number \<Rightarrow> child \<Rightarrow> event \<Rightarrow> child" where
  "waitForExit_step ms c TimerFired =
     (if timer c
      then (let c1 = c\<lparr>timer := False, timedOut := True\<rparr>;
                c2 = settle (Inl (TestTimeoutError_new ms)) c1
            in c2\<lparr>effects := effects c2 @ [Kill]\<rparr>)
      else c)"
| "waitForExit_step ms c (Exit code signal) =
     (if on_exit c
      then (let c1 = c\<lparr>on_exit := False\<rparr>
            in if timedOut c1 then c1
               else (let c2 = c1\<lparr>timer := False\<rparr>
                     in if code = Some 0 then settle (Inr ()) c2
                        else settle (Inl (TestError_new code signal)) c2))
      else c)"
| "waitForExit_step ms c (ErrorEvent error) =
     (if on_error c
      then (let c1 = c\<lparr>on_error := False\<rparr>
            in if timedOut c1 then c1
               else settle (Inl error) (c1\<lparr>timer := False\<rparr>))
      else c)"
| "waitForExit_step ms c (StdoutData chunk) = c"
| "waitForExit_step ms c (StderrData chunk) = c"

text \<open>
  \<open>await waitForExit(child, timeout)\<close> under the handlers \<open>h\<close> of the caller: the events are
  handled one by one until the promise is settled, and the caller goes on with the outcome.
  \<open>None\<close>: the events end while the promise is pending, and the caller never goes on.
\<close>

fun await_exit ::
  "(child \<Rightarrow> event \<Rightarrow> child) \<Rightarrow> child \<Rightarrow> event list \<Rightarrow> (child \<times> (js_error + unit)) option"
where
  "await_exit h c [] = None"
| "await_exit h c (e # es) =
     (let c' = h c e
      in case promise c' of None \<Rightarrow> await_exit h c' es | Some r \<Rightarrow> Some (c', r))"

subsection \<open>\<open>runSetup\<close> and \<open>runCommand\<close>\<close>

fun setup_handler :: "number \<Rightarrow> child \<Rightarrow> event \<Rightarrow> child" where
  "setup_handler ms c (StdoutData chunk) = c\<lparr>effects := effects c @ [StdoutWrite (indent chunk)]\<rparr>"
| "setup_handler ms c (StderrData chunk) = c\<lparr>effects := effects c @ [StderrWrite (indent chunk)]\<rparr>"
| "setup_handler ms c e = waitForExit_step ms c e"

definition runSetup ::
  "Test \<Rightarrow> jsstring \<Rightarrow> number \<Rightarrow> event list \<Rightarrow> (effect list \<times> (js_error + unit)) option"
where
  "runSetup test cwd ms evs =
     (case setup_cmd test of
        None \<Rightarrow> Some ([], Inr ())
      | Some cmd \<Rightarrow>
          if cmd = [] then Some ([], Inr ())
          else (case await_exit (setup_handler ms)
                       (child_init [Spawn cmd cwd, StdoutWrite (indent [0x0A])]) evs of
                  None \<Rightarrow> None
                | Some (c, r) \<Rightarrow> Some (effects c, r)))"

fun command_handler :: "number \<Rightarrow> child \<Rightarrow> event \<Rightarrow> child" where
  "command_handler ms c (StdoutData chunk) =
     c\<lparr>effects := effects c @ [StdoutWrite (indent chunk)], buffer := buffer c @ chunk\<rparr>"
| "command_handler ms c (StderrData chunk) =
     c\<lparr>effects := effects c @ [StderrWrite (indent chunk)]\<rparr>"
| "command_handler ms c e = waitForExit_step ms c e"

text \<open>\<open>Preload the inputs\<close>: lines 147 to 151.\<close>

definition preload :: "jsstring option \<Rightarrow> effect list" where
  "preload inp =
     (case inp of
        None \<Rightarrow> []
      | Some s \<Rightarrow> if s \<noteq> [] then [StdinWrite s, StdinEnd] else [])"

definition runCommand ::
  "Test \<Rightarrow> jsstring \<Rightarrow> number \<Rightarrow> event list \<Rightarrow> (effect list \<times> (js_error + number)) option"
where
  "runCommand test cwd ms evs =
     (case await_exit (command_handler ms)
             (child_init ([Spawn (run_cmd test) cwd, StdoutWrite (indent [0x0A])]
                          @ preload (input_text test))) evs of
        None \<Rightarrow> None
      | Some (c, Inl error) \<Rightarrow> Some (effects c, Inl error)
      | Some (c, Inr _) \<Rightarrow> Some (effects c, Inr (extract_score (buffer c))))"

section \<open>The test orchestrator\<close>

text \<open>
  What the outside world contributes to one test: the events of the setup child, the pair of
  seconds and nanoseconds that \<open>process.hrtime(start)\<close> returns after the setup phase, and the
  events of the main child.
\<close>

record world =
  setup_events :: "event list"
  elapsed :: "nat \<times> nat"
  run_events :: "event list"

text \<open>Line 165: \<^verbatim>\<open>(test.timeout || 1) * 60 * 1000 || 30000\<close>.\<close>

definition timeout_ms :: "Test \<Rightarrow> number" where
  "timeout_ms test =
     num_or (num_mul64 (num_mul64 (case timeout test of None \<Rightarrow> Num 1 | Some t \<Rightarrow> num_or t (Num 1))
                                  (Num 60)) (Num 1000))
            (Num 30000)"

text \<open>Line 170: \<^verbatim>\<open>timeout -= Math.floor(elapsed[0] * 1000 + elapsed[1] / 1000000)\<close>.\<close>

definition remaining_ms :: "number \<Rightarrow> nat \<times> nat \<Rightarrow> number" where
  "remaining_ms ms el =
     num_sub ms (Math_floor (num_add (num_mul (Num (of_nat (fst el))) (Num 1000))
                                     (num_div (Num (of_nat (snd el))) (Num 1000000))))"

definition run :: "Test \<Rightarrow> jsstring \<Rightarrow> world \<Rightarrow> (effect list \<times> (js_error + number)) option" where
  "run test cwd w =
     (case runSetup test cwd (timeout_ms test) (setup_events w) of
        None \<Rightarrow> None
      | Some (fx, Inl error) \<Rightarrow> Some (fx, Inl error)
      | Some (fx, Inr _) \<Rightarrow>
          (case runCommand test cwd (remaining_ms (timeout_ms test) (elapsed w)) (run_events w) of
             None \<Rightarrow> None
           | Some (fx', r) \<Rightarrow> Some (fx @ fx', r)))"

text \<open>
  The variables of \<open>runAll\<close>: \<open>points\<close> (here \<open>total\<close>, the name \<open>points\<close> being the field's),
  \<open>availablePoints\<close> and \<open>failed\<close>, and the actions so far.
\<close>

record report =
  total :: number
  availablePoints :: number
  failed :: bool
  actions :: "effect list"

definition emit :: "effect list \<Rightarrow> report \<Rightarrow> report" where
  "emit fx st = st\<lparr>actions := actions st @ fx\<rparr>"

text \<open>One turn of the loop of \<open>runAll\<close>, lines 187 to 209.\<close>

definition run_test :: "jsstring \<Rightarrow> report \<Rightarrow> Test \<times> world \<Rightarrow> report option" where
  "run_test cwd st tw =
     (let test = fst tw;
          st1 = (case points test of
                   None \<Rightarrow> st
                 | Some p \<Rightarrow>
                     if truthy p then st\<lparr>availablePoints := num_add (availablePoints st) p\<rparr>
                     else st);
          st2 = emit [Log (Header (name test)), Log Blank] st1
      in case run test cwd (snd tw) of
           None \<Rightarrow> None
         | Some (fx, Inr test_result) \<Rightarrow>
             (let st3 = (emit fx st2)\<lparr>total := num_add (total st2) test_result\<rparr>;
                  st4 = emit [Log Blank] st3
              in if strict_eq test_result (points test)
                 then Some (emit [Log (Passed (name test)), Log Blank] st4)
                 else Some (emit [Log (Failed (name test)), Log Blank] (st4\<lparr>failed := True\<rparr>)))
         | Some (fx, Inl error) \<Rightarrow>
             Some (emit [Log Blank, Log (Failed (name test)), SetFailed (message error)]
                        ((emit fx st2)\<lparr>failed := True\<rparr>)))"

fun run_tests :: "jsstring \<Rightarrow> report \<Rightarrow> (Test \<times> world) list \<Rightarrow> report option" where
  "run_tests cwd st [] = Some st"
| "run_tests cwd st (tw # tws) =
     (case run_test cwd st tw of None \<Rightarrow> None | Some st' \<Rightarrow> run_tests cwd st' tws)"

text \<open>
  \<open>runAll\<close>. The token of \<open>uuidv4()\<close> is a parameter, and so is \<open>setCheckRunOutput\<close> of
  \<open>./output\<close>, which is not part of these sources: \<open>check_run p a\<close> is the error with which the
  awaited call rejects for the text \<^verbatim>\<open>Points p/a\<close>, or \<open>None\<close>. Each test comes with its
  \<open>world\<close>. The result is the final state and the outcome of the promise of \<open>runAll\<close>; \<open>None\<close>
  when a test never ends.
\<close>

definition runAll ::
  "(number \<Rightarrow> number \<Rightarrow> js_error option) \<Rightarrow> jsstring \<Rightarrow> (Test \<times> world) list \<Rightarrow> jsstring
     \<Rightarrow> (report \<times> (js_error + unit)) option"
where
  "runAll check_run token tests cwd =
     (let st0 = \<lparr>total = Num 0, availablePoints = Num 0, failed = False,
                 actions = [Log Blank, Log (StopCommands token), Log Blank]\<rparr>
      in case run_tests cwd st0 tests of
           None \<Rightarrow> None
         | Some st1 \<Rightarrow>
             (let st2 = emit [Log Blank, Log (ResumeCommands token)] st1;
                  st3 = (if failed st2 then st2
                         else emit [Log Blank, Log AllTestsPassed, Log Blank, Log Sparkles,
                                    Log Blank] st2);
                  st4 = st3\<lparr>total := Math_round (total st3)\<rparr>
              in if num_gt (total st4) (Num 0)
                 then (let st5 = emit [Log (PointsLine (total st4) (availablePoints st4)),
                                       SetOutput (total st4) (availablePoints st4),
                                       SetCheckRunOutput (total st4) (availablePoints st4)] st4
                       in case check_run (total st4) (availablePoints st4) of
                            None \<Rightarrow> Some (st5, Inr ())
                          | Some error \<Rightarrow> Some (st5, Inl error))
                 else Some (st4, Inr ())))"

section \<open>Notions used in the statements\<close>

text \<open>The events that carry output, the standard output they add up to, and what each prints.\<close>

fun is_data :: "event \<Rightarrow> bool" where
  "is_data (StdoutData chunk) = True"
| "is_data (StderrData chunk) = True"
| "is_data e = False"

fun stdout_of :: "event list \<Rightarrow> jsstring" where
  "stdout_of [] = []"
| "stdout_of (StdoutData chunk # es) = chunk @ stdout_of es"
| "stdout_of (e # es) = stdout_of es"

fun forwarded :: "event list \<Rightarrow> effect list" where
  "forwarded [] = []"
| "forwarded (StdoutData chunk # es) = StdoutWrite (indent chunk) # forwarded es"
| "forwarded (StderrData chunk # es) = StderrWrite (indent chunk) # forwarded es"
| "forwarded (e # es) = forwarded es"

text \<open>The actions of the process runner, as opposed to those of \<open>runAll\<close> itself.\<close>

fun of_runner :: "effect \<Rightarrow> bool" where
  "of_runner (Log l) = False"
| "of_runner (SetFailed m) = False"
| "of_runner (SetOutput p a) = False"
| "of_runner (SetCheckRunOutput p a) = False"
| "of_runner e = True"

text \<open>The three actions of the points summary, lines 229 to 232.\<close>

fun is_summary :: "effect \<Rightarrow> bool" where
  "is_summary (Log (PointsLine p a)) = True"
| "is_summary (SetOutput p a) = True"
| "is_summary (SetCheckRunOutput p a) = True"
| "is_summary e = False"

text \<open>The names in the header lines, in order: the tests that were started.\<close>

fun started :: "effect list \<Rightarrow> jsstring list" where
  "started [] = []"
| "started (Log (Header n) # fx) = n # started fx"
| "started (e # fx) = started fx"

section \<open>Example inputs\<close>

definition graded_test :: Test where
  "graded_test =
     \<lparr>name = lit ''grade'', setup_cmd = None, run_cmd = lit ''make grade'', input_text = None,
      output_text = None, timeout = Some (Num 1), points = Some (Num 5), comparison = Exact\<rparr>"

definition input_test :: Test where
  "input_test = graded_test\<lparr>setup_cmd := Some (lit ''make''), input_text := Some (lit ''42\<newline>'')\<rparr>"

definition minute_world :: world where
  "minute_world =
     \<lparr>setup_events = [StdoutData (lit ''compiling''), Exit (Some 0) None], elapsed = (20, 0),
      run_events = [TimerFired]\<rparr>"

definition five_world :: world where
  "five_world =
     \<lparr>setup_events = [], elapsed = (0, 5000000),
      run_events = [StdoutData (lit ''[overall score: 5]\<newline>''), Exit (Some 0) None]\<rparr>"

definition empty_marker_world :: world where
  "empty_marker_world =
     \<lparr>setup_events = [], elapsed = (0, 5000000),
      run_events = [StdoutData (lit ''done\<newline>[overall score: ]\<newline>''), Exit (Some 0) None]\<rparr>"

definition silent_world :: world where
  "silent_world = \<lparr>setup_events = [], elapsed = (0, 5000000), run_events = [Exit (Some 0) None]\<rparr>"

definition no_check_run :: "number \<Rightarrow> number \<Rightarrow> js_error option" where
  "no_check_run p a = None"

text \<open>A timeout of \<^verbatim>\<open>0.03\<close> minutes: the binary64 value of that literal.\<close>

definition short_test :: Test where
  "short_test = graded_test\<lparr>timeout := Some (Num (round64 (3 / 100)))\<rparr>"

definition ungraded_test :: Test where
  "ungraded_test = graded_test\<lparr>name := lit ''lint'', points := None\<rparr>"

section \<open>Properties of the score marker\<close>

lemma strip_prefix_iff: "strip_prefix p s = Some r \<longleftrightarrow> s = p @ r"
  by (induction p s rule: strip_prefix.induct) auto

lemma rbracket_not_score: "\<not> is_score_char rbracket"
  by (simp add: is_score_char_def is_digit_def rbracket_def)

lemma rbracket_not_space: "\<not> is_space rbracket"
  by (simp add: is_space_def rbracket_def)

lemma rbracket_notin_open: "rbracket \<notin> set marker_open"
  by (simp add: marker_open_def lit_def rbracket_def)

lemma marker_open_snoc: "marker_open = butlast marker_open @ [0x20]"
  by (simp add: marker_open_def lit_def)

lemma space_not_score: "\<not> is_score_char 0x20"
  by (simp add: is_score_char_def is_digit_def)

lemma list_all_dropWhile: "list_all P xs \<longleftrightarrow> dropWhile P xs = []"
  by (induction xs) auto

lemma takeWhile_until: "c \<notin> set xs \<Longrightarrow> takeWhile (\<lambda>x. x \<noteq> c) (xs @ c # ys) = xs"
  by (induction xs) auto

lemma takeWhile_run: "list_all P xs \<Longrightarrow> \<not> P c \<Longrightarrow> takeWhile P (xs @ c # ys) = xs"
  by (induction xs) auto

lemma dropWhile_run: "list_all P xs \<Longrightarrow> \<not> P c \<Longrightarrow> dropWhile P (xs @ c # ys) = c # ys"
  by (induction xs) auto

lemma match_at_iff: "match_at s = Some d \<longleftrightarrow> matches_at s d"
proof
  assume "match_at s = Some d"
  then obtain r r' where s: "s = marker_open @ r"
    and dw: "dropWhile is_score_char r = rbracket # r'"
    and sp: "dropWhile is_space r' = []"
    and d: "d = takeWhile is_score_char r"
    by (auto simp: match_at_def strip_prefix_iff split: option.splits list.splits if_splits)
  have "r = d @ rbracket # r'"
    using dw d takeWhile_dropWhile_id [of is_score_char r] by simp
  moreover have "list_all is_score_char d"
    unfolding d by (simp add: list_all_iff) (meson set_takeWhileD)
  ultimately show "matches_at s d"
    using s sp by (auto simp: matches_at_def list_all_dropWhile)
next
  assume "matches_at s d"
  then obtain ws where s: "s = marker_open @ d @ rbracket # ws"
    and d: "list_all is_score_char d" and ws: "list_all is_space ws"
    by (auto simp: matches_at_def)
  have sp: "strip_prefix marker_open s = Some (d @ rbracket # ws)"
    by (simp add: strip_prefix_iff s)
  have dw: "dropWhile is_score_char (d @ rbracket # ws) = rbracket # ws"
    using d rbracket_not_score by (rule dropWhile_run)
  have tw: "takeWhile is_score_char (d @ rbracket # ws) = d"
    using d rbracket_not_score by (rule takeWhile_run)
  show "match_at s = Some d"
    using ws by (simp add: match_at_def sp dw tw list_all_dropWhile)
qed

lemma first_bracket_suffix:
  assumes "rbracket \<notin> set a" and "y @ rbracket # t = a @ rbracket # ws"
  shows "\<exists>z. ws = z @ t"
  using assms by (auto simp: append_eq_append_conv2 append_eq_Cons_conv Cons_eq_append_conv)

lemma no_match_across:
  assumes "\<not> list_all is_space t"
  shows "match_at (y @ rbracket # t) = None"
proof (rule ccontr)
  assume "match_at (y @ rbracket # t) \<noteq> None"
  then obtain d where "matches_at (y @ rbracket # t) d"
    by (auto simp: match_at_iff)
  then obtain ws where eq: "y @ rbracket # t = (marker_open @ d) @ rbracket # ws"
    and d: "list_all is_score_char d" and ws: "list_all is_space ws"
    by (auto simp: matches_at_def)
  have "rbracket \<notin> set (marker_open @ d)"
    using d rbracket_notin_open rbracket_not_score by (auto simp: list_all_iff)
  from first_bracket_suffix [OF this eq] obtain z where "ws = z @ t" ..
  with ws assms show False by simp
qed

lemma regexp_exec_after_bracket:
  assumes "\<not> list_all is_space t"
  shows "regexp_exec (x @ rbracket # t) = regexp_exec t"
proof (induction x)
  case Nil
  show ?case using no_match_across [OF assms, of "[]"] by simp
next
  case (Cons c x)
  show ?case using no_match_across [OF assms, of "c # x"] Cons.IH by simp
qed

lemma capture_unique:
  assumes "matches_at (y @ s) m" and "matches_at s d"
  shows "m = d"
proof -
  obtain ws where s: "s = marker_open @ d @ rbracket # ws"
    and d: "list_all is_score_char d" and ws: "list_all is_space ws"
    using assms(2) by (auto simp: matches_at_def)
  obtain ws' where s': "y @ s = marker_open @ m @ rbracket # ws'"
    and m: "list_all is_score_char m" and ws': "list_all is_space ws'"
    using assms(1) by (auto simp: matches_at_def)
  have nb: "rbracket \<notin> set ws" "rbracket \<notin> set ws'"
    using ws ws' rbracket_not_space by (auto simp: list_all_iff)
  have eq: "rev ws @ rbracket # rev (y @ marker_open @ d) = rev ws' @ rbracket # rev (marker_open @ m)"
    using s s' by (metis append.assoc rev.simps(2) rev_append append_Cons append_Nil)
  have "takeWhile (\<lambda>c. c \<noteq> rbracket) (rev ws @ rbracket # rev (y @ marker_open @ d)) = rev ws"
    using nb by (intro takeWhile_until) simp
  moreover have "takeWhile (\<lambda>c. c \<noteq> rbracket) (rev ws' @ rbracket # rev (marker_open @ m)) = rev ws'"
    using nb by (intro takeWhile_until) simp
  ultimately have "ws = ws'" using eq by simp
  with eq have eq2: "rev d @ rev marker_open @ rev y = rev m @ rev marker_open" by simp
  have hd: "rev marker_open = 0x20 # rev (butlast marker_open)"
    by (subst marker_open_snoc) simp
  have "takeWhile is_score_char (rev d @ rev marker_open @ rev y) = rev d"
    unfolding hd append_Cons using d space_not_score by (intro takeWhile_run) simp_all
  moreover have "takeWhile is_score_char (rev m @ rev marker_open) = rev m"
    unfolding hd using m space_not_score by (intro takeWhile_run) simp_all
  ultimately show ?thesis using eq2 by simp
qed

lemma regexp_exec_marker_at_end:
  assumes "matches_at s d"
  shows "regexp_exec (pre @ s) = Some d"
proof (induction pre)
  case Nil
  have "match_at s = Some d" using assms by (simp add: match_at_iff)
  then show ?case by (cases s) auto
next
  case (Cons c pre)
  show ?case
  proof (cases "match_at (c # pre @ s)")
    case None
    then show ?thesis using Cons.IH by simp
  next
    case (Some m)
    then have "matches_at ((c # pre) @ s) m" by (simp add: match_at_iff)
    from capture_unique [OF this assms] Some show ?thesis by simp
  qed
qed

lemma regexp_exec_Some_D:
  "regexp_exec s = Some d \<Longrightarrow> \<exists>pre suf. s = pre @ suf \<and> matches_at suf d"
proof (induction s)
  case Nil
  then show ?case by (auto simp: match_at_iff)
next
  case (Cons c s)
  show ?case
  proof (cases "match_at (c # s)")
    case None
    with Cons obtain pre suf where "s = pre @ suf" "matches_at suf d" by auto
    then have "c # s = (c # pre) @ suf \<and> matches_at suf d" by simp
    then show ?thesis by blast
  next
    case (Some m)
    with Cons.prems have "matches_at (c # s) d" by (simp add: match_at_iff)
    then have "c # s = [] @ (c # s) \<and> matches_at (c # s) d" by simp
    then show ?thesis by blast
  qed
qed

section \<open>Properties of the process runner\<close>

lemma num_add_NaN_right: "num_add x NaN = NaN"
  by (cases x) simp_all

lemma started_append: "started (a @ b) = started a @ started b"
  by (induction a rule: started.induct) simp_all

lemma started_of_runner: "list_all of_runner fx \<Longrightarrow> started fx = []"
  by (induction fx rule: started.induct) simp_all

lemma of_runner_not_summary: "of_runner e \<Longrightarrow> \<not> is_summary e"
  by (cases e) simp_all

lemma of_runner_forwarded: "list_all of_runner (forwarded evs)"
  by (induction evs rule: forwarded.induct) simp_all

lemma settle_effects: "effects (settle r c) = effects c"
  by (simp add: settle_def split: option.splits)

lemma settle_pending: "promise c = None \<Longrightarrow> settle r c = c\<lparr>promise := Some r\<rparr>"
  by (simp add: settle_def)

lemma settle_settled: "promise c \<noteq> None \<Longrightarrow> settle r c = c"
  by (auto simp: settle_def)

lemma waitForExit_step_of_runner:
  "list_all of_runner (effects c) \<Longrightarrow> list_all of_runner (effects (waitForExit_step ms c e))"
  by (cases e) (simp_all add: Let_def settle_effects)

lemma setup_handler_of_runner:
  "list_all of_runner (effects c) \<Longrightarrow> list_all of_runner (effects (setup_handler ms c e))"
  by (cases e) (simp_all add: Let_def settle_effects)

lemma command_handler_of_runner:
  "list_all of_runner (effects c) \<Longrightarrow> list_all of_runner (effects (command_handler ms c e))"
  by (cases e) (simp_all add: Let_def settle_effects)

lemma await_exit_of_runner:
  assumes "\<And>c e. list_all of_runner (effects c) \<Longrightarrow> list_all of_runner (effects (h c e))"
  shows "await_exit h c evs = Some (c', r) \<Longrightarrow> list_all of_runner (effects c)
         \<Longrightarrow> list_all of_runner (effects c')"
proof (induction evs arbitrary: c)
  case Nil
  then show ?case by simp
next
  case (Cons e evs)
  show ?case
  proof (cases "promise (h c e)")
    case None
    with Cons.prems have "await_exit h (h c e) evs = Some (c', r)" by simp
    from Cons.IH [OF this] assms Cons.prems(2) show ?thesis by blast
  next
    case (Some r')
    with Cons.prems have "c' = h c e" by simp
    with assms Cons.prems(2) show ?thesis by blast
  qed
qed

lemma await_exit_promise:
  "await_exit h c evs = Some (c', r) \<Longrightarrow> promise c' = Some r"
  by (induction evs arbitrary: c) (auto simp: Let_def split: option.splits)

lemma of_runner_preload: "list_all of_runner (preload inp)"
  by (simp add: preload_def split: option.splits)

lemma await_setup_of_runner:
  "await_exit (setup_handler ms) c evs = Some (c', r) \<Longrightarrow> list_all of_runner (effects c)
   \<Longrightarrow> list_all of_runner (effects c')"
  by (rule await_exit_of_runner [where h = "setup_handler ms"]) (auto intro: setup_handler_of_runner)

lemma await_command_of_runner:
  "await_exit (command_handler ms) c evs = Some (c', r) \<Longrightarrow> list_all of_runner (effects c)
   \<Longrightarrow> list_all of_runner (effects c')"
  by (rule await_exit_of_runner [where h = "command_handler ms"]) (auto intro: command_handler_of_runner)

lemma runSetup_of_runner:
  assumes "runSetup test cwd ms evs = Some (fx, r)"
  shows "list_all of_runner fx"
proof (cases "setup_cmd test")
  case None
  with assms show ?thesis by (simp add: runSetup_def)
next
  case (Some cmd)
  show ?thesis
  proof (cases "cmd = []")
    case True
    with Some assms show ?thesis by (simp add: runSetup_def)
  next
    case False
    with Some assms obtain c where
      a: "await_exit (setup_handler ms) (child_init [Spawn cmd cwd, StdoutWrite (indent [0x0A])]) evs
          = Some (c, r)" and fx: "fx = effects c"
      by (auto simp: runSetup_def split: option.splits)
    have "list_all of_runner (effects c)"
      by (rule await_setup_of_runner [OF a]) (simp add: child_init_def)
    with fx show ?thesis by simp
  qed
qed

lemma runCommand_of_runner:
  assumes "runCommand test cwd ms evs = Some (fx, r)"
  shows "list_all of_runner fx"
proof -
  let ?c0 = "child_init ([Spawn (run_cmd test) cwd, StdoutWrite (indent [0x0A])]
                          @ preload (input_text test))"
  from assms obtain c r' where
    a: "await_exit (command_handler ms) ?c0 evs = Some (c, r')" and fx: "fx = effects c"
    by (auto simp: runCommand_def split: option.splits sum.splits)
  have "list_all of_runner (effects c)"
    by (rule await_command_of_runner [OF a]) (simp add: child_init_def of_runner_preload)
  with fx show ?thesis by simp
qed

lemma run_of_runner:
  assumes "run test cwd w = Some (fx, r)"
  shows "list_all of_runner fx"
proof (cases "runSetup test cwd (timeout_ms test) (setup_events w)")
  case None
  with assms show ?thesis by (simp add: run_def)
next
  case (Some p)
  obtain fx1 r1 where p: "p = (fx1, r1)" by (cases p)
  have fx1: "list_all of_runner fx1" using Some p by (auto dest: runSetup_of_runner)
  show ?thesis
  proof (cases r1)
    case (Inl e)
    with assms Some p fx1 show ?thesis by (simp add: run_def)
  next
    case (Inr u)
    with assms Some p obtain fx2 where
      rc: "runCommand test cwd (remaining_ms (timeout_ms test) (elapsed w)) (run_events w)
           = Some (fx2, r)" and fx: "fx = fx1 @ fx2"
      by (auto simp: run_def split: option.splits)
    from runCommand_of_runner [OF rc] fx1 fx show ?thesis by simp
  qed
qed

lemma await_command_data:
  "list_all is_data before \<Longrightarrow> promise c = None \<Longrightarrow>
   await_exit (command_handler ms) c (before @ e # later)
   = await_exit (command_handler ms)
       (c\<lparr>effects := effects c @ forwarded before, buffer := buffer c @ stdout_of before\<rparr>)
       (e # later)"
proof (induction before arbitrary: c)
  case Nil
  then show ?case by simp
next
  case (Cons d before)
  show ?case
  proof (cases d)
    case (StdoutData chunk)
    let ?c = "c\<lparr>effects := effects c @ [StdoutWrite (indent chunk)], buffer := buffer c @ chunk\<rparr>"
    have "await_exit (command_handler ms) c ((d # before) @ e # later)
          = await_exit (command_handler ms) ?c (before @ e # later)"
      using Cons.prems StdoutData by simp
    also have "\<dots> = await_exit (command_handler ms)
       (?c\<lparr>effects := effects ?c @ forwarded before, buffer := buffer ?c @ stdout_of before\<rparr>)
       (e # later)"
      using Cons.prems by (intro Cons.IH) simp_all
    finally show ?thesis using StdoutData by simp
  next
    case (StderrData chunk)
    let ?c = "c\<lparr>effects := effects c @ [StderrWrite (indent chunk)]\<rparr>"
    have "await_exit (command_handler ms) c ((d # before) @ e # later)
          = await_exit (command_handler ms) ?c (before @ e # later)"
      using Cons.prems StderrData by simp
    also have "\<dots> = await_exit (command_handler ms)
       (?c\<lparr>effects := effects ?c @ forwarded before, buffer := buffer ?c @ stdout_of before\<rparr>)
       (e # later)"
      using Cons.prems by (intro Cons.IH) simp_all
    finally show ?thesis using StderrData by simp
  qed (use Cons.prems in simp_all)
qed

lemma await_setup_data:
  "list_all is_data before \<Longrightarrow> promise c = None \<Longrightarrow>
   await_exit (setup_handler ms) c (before @ e # later)
   = await_exit (setup_handler ms) (c\<lparr>effects := effects c @ forwarded before\<rparr>) (e # later)"
proof (induction before arbitrary: c)
  case Nil
  then show ?case by simp
next
  case (Cons d before)
  show ?case
  proof (cases d)
    case (StdoutData chunk)
    let ?c = "c\<lparr>effects := effects c @ [StdoutWrite (indent chunk)]\<rparr>"
    have "await_exit (setup_handler ms) c ((d # before) @ e # later)
          = await_exit (setup_handler ms) ?c (before @ e # later)"
      using Cons.prems StdoutData by simp
    also have "\<dots> = await_exit (setup_handler ms)
       (?c\<lparr>effects := effects ?c @ forwarded before\<rparr>) (e # later)"
      using Cons.prems by (intro Cons.IH) simp_all
    finally show ?thesis using StdoutData by simp
  next
    case (StderrData chunk)
    let ?c = "c\<lparr>effects := effects c @ [StderrWrite (indent chunk)]\<rparr>"
    have "await_exit (setup_handler ms) c ((d # before) @ e # later)
          = await_exit (setup_handler ms) ?c (before @ e # later)"
      using Cons.prems StderrData by simp
    also have "\<dots> = await_exit (setup_handler ms)
       (?c\<lparr>effects := effects ?c @ forwarded before\<rparr>) (e # later)"
      using Cons.prems by (intro Cons.IH) simp_all
    finally show ?thesis using StderrData by simp
  qed (use Cons.prems in simp_all)
qed

lemma step_exit:
  "on_exit c \<Longrightarrow> \<not> timedOut c \<Longrightarrow> promise c = None \<Longrightarrow>
   waitForExit_step ms c (Exit code signal)
   = c\<lparr>on_exit := False, timer := False,
        promise := Some (if code = Some 0 then Inr () else Inl (TestError_new code signal))\<rparr>"
  by (simp add: Let_def settle_def)

lemma step_timer:
  "timer c \<Longrightarrow> promise c = None \<Longrightarrow>
   waitForExit_step ms c TimerFired
   = c\<lparr>timer := False, timedOut := True, promise := Some (Inl (TestTimeoutError_new ms)),
        effects := effects c @ [Kill]\<rparr>"
  by (simp add: Let_def settle_def)

lemma step_error:
  "on_error c \<Longrightarrow> \<not> timedOut c \<Longrightarrow> promise c = None \<Longrightarrow>
   waitForExit_step ms c (ErrorEvent error)
   = c\<lparr>on_error := False, timer := False, promise := Some (Inl error)\<rparr>"
  by (simp add: Let_def settle_def)

lemma runCommand_exit:
  assumes "list_all is_data before"
  shows "runCommand test cwd ms (before @ Exit code signal # later)
         = Some ([Spawn (run_cmd test) cwd, StdoutWrite (indent [0x0A])] @ preload (input_text test)
                   @ forwarded before,
                 if code = Some 0 then Inr (extract_score (stdout_of before))
                 else Inl (TestError_new code signal))"
  unfolding runCommand_def
  by (subst await_command_data [OF assms]) (simp_all add: child_init_def Let_def settle_def)

lemma runCommand_timer:
  assumes "list_all is_data before"
  shows "runCommand test cwd ms (before @ TimerFired # later)
         = Some ([Spawn (run_cmd test) cwd, StdoutWrite (indent [0x0A])] @ preload (input_text test)
                   @ forwarded before @ [Kill],
                 Inl (TestTimeoutError_new ms))"
  unfolding runCommand_def
  by (subst await_command_data [OF assms]) (simp_all add: child_init_def Let_def settle_def)

lemma runCommand_error:
  assumes "list_all is_data before"
  shows "runCommand test cwd ms (before @ ErrorEvent error # later)
         = Some ([Spawn (run_cmd test) cwd, StdoutWrite (indent [0x0A])] @ preload (input_text test)
                   @ forwarded before,
                 Inl error)"
  unfolding runCommand_def
  by (subst await_command_data [OF assms]) (simp_all add: child_init_def Let_def settle_def)

lemma runSetup_exit:
  assumes "list_all is_data before" and "setup_cmd test = Some cmd" and "cmd \<noteq> []"
  shows "runSetup test cwd ms (before @ Exit code signal # later)
         = Some ([Spawn cmd cwd, StdoutWrite (indent [0x0A])] @ forwarded before,
                 if code = Some 0 then Inr () else Inl (TestError_new code signal))"
  unfolding runSetup_def using assms(2,3)
  by (simp add: await_setup_data [OF assms(1)] child_init_def Let_def settle_def)

lemma runSetup_timer:
  assumes "list_all is_data before" and "setup_cmd test = Some cmd" and "cmd \<noteq> []"
  shows "runSetup test cwd ms (before @ TimerFired # later)
         = Some ([Spawn cmd cwd, StdoutWrite (indent [0x0A])] @ forwarded before @ [Kill],
                 Inl (TestTimeoutError_new ms))"
  unfolding runSetup_def using assms(2,3)
  by (simp add: await_setup_data [OF assms(1)] child_init_def Let_def settle_def)

lemma regexp_exec_None_I:
  assumes "\<forall>p m q. list_all is_score_char m \<and> list_all is_space q \<longrightarrow> s \<noteq> p @ marker_open @ m @ rbracket # q"
  shows "regexp_exec s = None"
proof (cases "regexp_exec s")
  case None
  then show ?thesis .
next
  case (Some m)
  from regexp_exec_Some_D [OF this] obtain p suf where "s = p @ suf" "matches_at suf m"
    by blast
  then obtain q where "s = p @ marker_open @ m @ rbracket # q" "list_all is_score_char m"
    "list_all is_space q"
    by (auto simp: matches_at_def)
  with assms show ?thesis by blast
qed

lemma split_first_event:
  assumes "\<not> list_all is_data evs"
  obtains before e later where "evs = before @ e # later" "list_all is_data before" "\<not> is_data e"
proof -
  let ?b = "takeWhile is_data evs"
  have "dropWhile is_data evs \<noteq> []" using assms by (simp add: list_all_dropWhile)
  then obtain e later where d: "dropWhile is_data evs = e # later" by (cases "dropWhile is_data evs") auto
  have "evs = ?b @ e # later" using d takeWhile_dropWhile_id [of is_data evs] by simp
  moreover have "list_all is_data ?b" by (simp add: list_all_iff) (meson set_takeWhileD)
  moreover have "\<not> is_data e" using d by (metis hd_dropWhile list.sel(1) list.distinct(1))
  ultimately show ?thesis using that by blast
qed

lemma no_stdin_forwarded: "StdinEnd \<notin> set (forwarded evs) \<and> StdinWrite x \<notin> set (forwarded evs)"
  by (induction evs rule: forwarded.induct) simp_all

lemma settled_step:
  assumes "timedOut c" and "\<not> timer c"
  shows "promise (waitForExit_step ms c e) = promise c \<and> effects (waitForExit_step ms c e) = effects c
         \<and> timedOut (waitForExit_step ms c e) \<and> \<not> timer (waitForExit_step ms c e)"
  using assms by (cases e) (simp_all add: Let_def)

lemma settled_steps:
  assumes "timedOut c" and "\<not> timer c"
  shows "promise (foldl (waitForExit_step ms) c later) = promise c
         \<and> effects (foldl (waitForExit_step ms) c later) = effects c
         \<and> timedOut (foldl (waitForExit_step ms) c later)
         \<and> \<not> timer (foldl (waitForExit_step ms) c later)"
  using assms
proof (induction later arbitrary: c)
  case Nil
  then show ?case by simp
next
  case (Cons e later)
  from settled_step [OF Cons.prems, of ms e] Cons.IH [of "waitForExit_step ms c e"]
  show ?case by simp
qed

lemma bitlen_powi_bounds:
  assumes "0 < n"
  shows "(2::rat) powi (bitlen n - 1) \<le> of_int n" and "of_int n < (2::rat) powi bitlen n"
proof -
  have b: "1 \<le> bitlen n" using assms bitlen_eq_zero_iff [of n] bitlen_nonneg [of n] by linarith
  from bitlen_bounds [OF assms] have lo: "2 ^ nat (bitlen n - 1) \<le> n" and hi: "n < 2 ^ nat (bitlen n)"
    by simp_all
  have "(2::rat) powi (bitlen n - 1) = 2 ^ nat (bitlen n - 1)"
    using b by (simp add: power_int_def)
  also have "\<dots> = of_int (2 ^ nat (bitlen n - 1))" by simp
  also have "\<dots> \<le> of_int n" using lo by (simp only: of_int_le_iff)
  finally show "(2::rat) powi (bitlen n - 1) \<le> of_int n" .
  have "(of_int n :: rat) < of_int (2 ^ nat (bitlen n))" using hi by (simp only: of_int_less_iff)
  also have "\<dots> = 2 ^ nat (bitlen n)" by simp
  also have "\<dots> = (2::rat) powi bitlen n" using b by (simp add: power_int_def)
  finally show "of_int n < (2::rat) powi bitlen n" .
qed

lemma floor_log2_bounds:
  assumes "0 < x"
  shows "2 powi floor_log2 x \<le> x" and "x < 2 powi (floor_log2 x + 1)"
proof -
  obtain p q where pq: "quotient_of x = (p, q)" by (cases "quotient_of x")
  let ?e = "bitlen p - bitlen q"
  have q: "0 < q" using quotient_of_denom_pos [OF pq] .
  have x: "x = of_int p / of_int q" by (rule quotient_of_div [OF pq])
  have p: "0 < p"
    using assms q by (simp add: x zero_less_divide_iff)
  have "(2::rat) powi (?e - 1) = 2 powi (bitlen p - 1) / 2 powi bitlen q"
    by (simp add: power_int_diff [symmetric] algebra_simps)
  also have "\<dots> \<le> of_int p / of_int q"
    using bitlen_powi_bounds(1) [OF p] bitlen_powi_bounds(2) [OF q] p q
    by (intro frac_le) simp_all
  finally have lo: "(2::rat) powi (?e - 1) \<le> x" by (simp add: x)
  have "of_int p / of_int q < (2::rat) powi bitlen p / 2 powi (bitlen q - 1)"
    using bitlen_powi_bounds(2) [OF p] bitlen_powi_bounds(1) [OF q] p q
    by (intro frac_less) simp_all
  also have "\<dots> = 2 powi (?e + 1)"
    by (simp add: power_int_diff [symmetric] algebra_simps)
  finally have hi: "x < (2::rat) powi (?e + 1)" by (simp add: x)
  show "2 powi floor_log2 x \<le> x"
    using lo by (simp add: floor_log2_def Let_def pq)
  show "x < 2 powi (floor_log2 x + 1)"
    using hi by (auto simp: floor_log2_def Let_def pq not_le)
qed

lemma round_half_even_of_int: "round_half_even (of_int z) = z"
  by (simp add: round_half_even_def)

lemma round64_of_int:
  assumes "\<bar>n\<bar> < 2 ^ 53"
  shows "round64 (of_int n) = of_int n"
proof (cases "n = 0")
  case True
  then show ?thesis by (simp add: round64_def)
next
  case False
  define x :: rat where "x = of_int n"
  define u where "u = max (floor_log2 \<bar>x\<bar>) (- 1022) - 52"
  have pos: "0 < \<bar>x\<bar>" using False by (simp add: x_def)
  have lt: "\<bar>x\<bar> < 2 powi 53"
  proof -
    have "\<bar>x\<bar> = of_int \<bar>n\<bar>" by (simp add: x_def)
    also have "\<dots> < of_int (2 ^ 53)" using assms by (simp only: of_int_less_iff)
    also have "\<dots> = (2::rat) powi 53" by (simp add: power_int_def)
    finally show ?thesis .
  qed
  have "floor_log2 \<bar>x\<bar> < 53"
  proof (rule ccontr)
    assume "\<not> floor_log2 \<bar>x\<bar> < 53"
    then have "(2::rat) powi 53 \<le> 2 powi floor_log2 \<bar>x\<bar>"
      by (intro power_int_increasing) simp_all
    also have "\<dots> \<le> \<bar>x\<bar>" by (rule floor_log2_bounds(1) [OF pos])
    finally show False using lt by simp
  qed
  then have u: "u \<le> 0" by (simp add: u_def)
  have "x / 2 powi u = x * 2 ^ nat (- u)"
    using u by (simp add: power_int_def field_simps)
  also have "\<dots> = of_int (n * 2 ^ nat (- u))" by (simp add: x_def)
  finally have "round_half_even (x / 2 powi u) = n * 2 ^ nat (- u)"
    by (simp only: round_half_even_of_int)
  then have "round64 x = of_int (n * 2 ^ nat (- u)) * 2 powi u"
    using False by (simp add: round64_def Let_def x_def u_def)
  also have "\<dots> = x"
    using u by (simp add: power_int_def field_simps x_def)
  finally show ?thesis by (simp add: x_def)
qed

lemma round64_60: "round64 60 = 60"
  using round64_of_int [of 60] by simp

lemma round64_60000: "round64 60000 = 60000"
  using round64_of_int [of 60000] by simp

lemma timeout_ms_Num:
  "timeout_ms test = Num (case timeout test of None \<Rightarrow> 60000
                          | Some NaN \<Rightarrow> 60000
                          | Some (Num m) \<Rightarrow>
                              if m = 0 then 60000
                              else if round64 (round64 (m * 60) * 1000) = 0 then 30000
                              else round64 (round64 (m * 60) * 1000))"
  by (simp add: timeout_ms_def num_or_def round64_60 round64_60000
           split: option.splits number.splits)

lemma timeout_ms_whole:
  assumes "timeout test = Some (Num (of_int k))" and "k \<noteq> 0" and "\<bar>k\<bar> \<le> 150119987579"
  shows "timeout_ms test = Num (of_int k * 60000)"
proof -
  have e1: "of_int k * 60 = (of_int (k * 60) :: rat)" by simp
  have e2: "of_int (k * 60) * 1000 = (of_int (k * 60000) :: rat)" by simp
  have r1: "round64 (of_int (k * 60)) = of_int (k * 60)"
    using assms(3) by (intro round64_of_int) (simp add: abs_mult)
  have r2: "round64 (of_int (k * 60000)) = of_int (k * 60000)"
    using assms(3) by (intro round64_of_int) (simp add: abs_mult)
  have a: "round64 (of_int k * 60) = of_int (k * 60)"
    unfolding e1 by (rule r1)
  have b: "round64 (of_int (k * 60) * 1000) = of_int (k * 60000)"
    unfolding e2 by (rule r2)
  have k0: "(of_int k :: rat) \<noteq> 0" using assms(2) by simp
  have c: "(of_int (k * 60000) :: rat) \<noteq> 0" using assms(2) by simp
  show ?thesis
    unfolding timeout_ms_Num assms(1)
    by (simp only: option.case number.case a b k0 c if_False) simp
qed

lemma timeout_ms_input_test: "timeout_ms input_test = Num 60000"
  using timeout_ms_whole [of input_test 1] by (simp add: input_test_def graded_test_def)

lemma floor_elapsed:
  "\<lfloor>(of_nat s :: rat) * 1000 + of_nat ns / 1000000\<rfloor> = int (1000 * s + ns div 1000000)"
proof -
  have "\<lfloor>(of_nat s :: rat) * 1000 + of_nat ns / 1000000\<rfloor>
        = \<lfloor>of_int (int (1000 * s)) + (of_nat ns / of_nat 1000000 :: rat)\<rfloor>"
    by (simp add: mult.commute)
  also have "\<dots> = int (1000 * s) + \<lfloor>(of_nat ns / of_nat 1000000 :: rat)\<rfloor>"
    by (rule int_add_floor [symmetric])
  also have "\<lfloor>(of_nat ns / of_nat 1000000 :: rat)\<rfloor> = int (ns div 1000000)"
    by (simp only: floor_divide_of_nat_eq)
  finally show ?thesis by (simp add: zdiv_int)
qed

lemma remaining_ms_Num:
  "remaining_ms (Num b) (s, ns) = Num (b - of_nat (1000 * s + ns div 1000000))"
proof -
  have "remaining_ms (Num b) (s, ns)
        = Num (b - of_int \<lfloor>(of_nat s :: rat) * 1000 + of_nat ns / 1000000\<rfloor>)"
    by (simp add: remaining_ms_def)
  then show ?thesis by (simp only: floor_elapsed of_int_of_nat_eq)
qed

section \<open>Properties of the orchestrator\<close>

lemma filter_summary_of_runner: "list_all of_runner fx \<Longrightarrow> filter is_summary fx = []"
  by (induction fx) (auto dest: of_runner_not_summary)

lemma run_test_Some:
  assumes "run_test cwd st tw = Some st'"
  shows "\<exists>fx r tail. run (fst tw) cwd (snd tw) = Some (fx, r)
     \<and> actions st' = actions st @ [Log (Header (name (fst tw))), Log Blank] @ fx @ tail
     \<and> (case r of
          Inl e \<Rightarrow> tail = [Log Blank, Log (Failed (name (fst tw))), SetFailed (message e)]
                   \<and> failed st' \<and> total st' = total st
        | Inr v \<Rightarrow> total st' = num_add (total st) v
                   \<and> (if strict_eq v (points (fst tw))
                       then tail = [Log Blank, Log (Passed (name (fst tw))), Log Blank]
                            \<and> failed st' = failed st
                       else tail = [Log Blank, Log (Failed (name (fst tw))), Log Blank]
                            \<and> failed st'))"
proof (cases "run (fst tw) cwd (snd tw)")
  case None
  with assms show ?thesis by (simp add: run_test_def Let_def)
next
  case (Some p)
  obtain fx r where p: "p = (fx, r)" by (cases p)
  show ?thesis
  proof (cases r)
    case (Inl e)
    with assms Some p show ?thesis
      by (auto simp: run_test_def Let_def emit_def split: option.splits if_splits)
  next
    case (Inr v)
    with assms Some p show ?thesis
      by (auto simp: run_test_def Let_def emit_def split: option.splits if_splits)
  qed
qed

lemma run_test_returns:
  "run (fst tw) cwd (snd tw) \<noteq> None \<Longrightarrow> \<exists>st'. run_test cwd st tw = Some st'"
  by (auto simp: run_test_def Let_def split: option.splits sum.splits)

lemma run_test_step:
  assumes "run_test cwd st tw = Some st'"
  shows "\<exists>ext. actions st' = actions st @ ext \<and> started ext = [name (fst tw)]
               \<and> filter is_summary ext = []"
    and "failed st \<Longrightarrow> failed st'"
    and "total st = NaN \<Longrightarrow> total st' = NaN"
proof -
  from run_test_Some [OF assms] obtain fx r tail where
    run: "run (fst tw) cwd (snd tw) = Some (fx, r)"
    and act: "actions st' = actions st @ [Log (Header (name (fst tw))), Log Blank] @ fx @ tail"
    and r: "case r of
          Inl e \<Rightarrow> tail = [Log Blank, Log (Failed (name (fst tw))), SetFailed (message e)]
                   \<and> failed st' \<and> total st' = total st
        | Inr v \<Rightarrow> total st' = num_add (total st) v
                   \<and> (if strict_eq v (points (fst tw))
                       then tail = [Log Blank, Log (Passed (name (fst tw))), Log Blank]
                            \<and> failed st' = failed st
                       else tail = [Log Blank, Log (Failed (name (fst tw))), Log Blank]
                            \<and> failed st')"
    by blast
  have fx: "started fx = []" "filter is_summary fx = []"
    using run_of_runner [OF run] by (simp_all add: started_of_runner filter_summary_of_runner)
  have tail: "started tail = [] \<and> filter is_summary tail = []"
    using r by (auto split: sum.splits if_splits)
  let ?ext = "[Log (Header (name (fst tw))), Log Blank] @ fx @ tail"
  have "started ?ext = [name (fst tw)]" "filter is_summary ?ext = []"
    using fx tail by (simp_all add: started_append)
  with act show "\<exists>ext. actions st' = actions st @ ext \<and> started ext = [name (fst tw)]
               \<and> filter is_summary ext = []"
    by blast
  show "failed st'" if "failed st"
    using r that by (auto split: sum.splits if_splits)
  show "total st' = NaN" if "total st = NaN"
    using r that by (auto split: sum.splits if_splits)
qed

lemma run_tests_returns:
  "\<forall>tw\<in>set tws. run (fst tw) cwd (snd tw) \<noteq> None \<Longrightarrow> \<exists>st'. run_tests cwd st tws = Some st'"
proof (induction tws arbitrary: st)
  case Nil
  then show ?case by simp
next
  case (Cons tw tws)
  from Cons.prems obtain st1 where "run_test cwd st tw = Some st1"
    using run_test_returns [of tw cwd st] by auto
  with Cons.IH [of st1] Cons.prems show ?case by simp
qed

lemma run_tests_mono:
  assumes "run_tests cwd st tws = Some st'"
  shows "(\<exists>ext. actions st' = actions st @ ext \<and> started ext = map (name \<circ> fst) tws
                \<and> filter is_summary ext = [])
       \<and> (failed st \<longrightarrow> failed st') \<and> (total st = NaN \<longrightarrow> total st' = NaN)"
  using assms
proof (induction tws arbitrary: st)
  case Nil
  then show ?case by simp
next
  case (Cons tw tws)
  from Cons.prems obtain st1 where s1: "run_test cwd st tw = Some st1"
    and rest: "run_tests cwd st1 tws = Some st'"
    by (auto split: option.splits)
  from run_test_step(1) [OF s1] obtain e1 where
    e1: "actions st1 = actions st @ e1" "started e1 = [name (fst tw)]" "filter is_summary e1 = []"
    by blast
  from Cons.IH [OF rest] obtain e2 where
    e2: "actions st' = actions st1 @ e2" "started e2 = map (name \<circ> fst) tws"
        "filter is_summary e2 = []"
    and m: "failed st1 \<longrightarrow> failed st'" "total st1 = NaN \<longrightarrow> total st' = NaN"
    by blast
  have "actions st' = actions st @ (e1 @ e2) \<and> started (e1 @ e2) = map (name \<circ> fst) (tw # tws)
        \<and> filter is_summary (e1 @ e2) = []"
    using e1 e2 by (simp add: started_append)
  moreover have "failed st \<longrightarrow> failed st'" using run_test_step(2) [OF s1] m by blast
  moreover have "total st = NaN \<longrightarrow> total st' = NaN" using run_test_step(3) [OF s1] m by blast
  ultimately show ?case by blast
qed

lemma run_tests_member:
  assumes "run_tests cwd st tws = Some st'" and "tw \<in> set tws"
  shows "\<exists>sa sb ext. run_test cwd sa tw = Some sb \<and> actions st' = actions sb @ ext
                    \<and> (failed sb \<longrightarrow> failed st') \<and> (total sb = NaN \<longrightarrow> total st' = NaN)"
  using assms
proof (induction tws arbitrary: st)
  case Nil
  then show ?case by simp
next
  case (Cons x tws)
  from Cons.prems(1) obtain st1 where s1: "run_test cwd st x = Some st1"
    and rest: "run_tests cwd st1 tws = Some st'"
    by (auto split: option.splits)
  show ?case
  proof (cases "tw = x")
    case True
    from run_tests_mono [OF rest] s1 True show ?thesis by blast
  next
    case False
    with Cons.prems(2) have "tw \<in> set tws" by simp
    from Cons.IH [OF rest this] show ?thesis .
  qed
qed

lemma runAll_Some:
  assumes "run_tests cwd \<lparr>total = Num 0, availablePoints = Num 0, failed = False,
                 actions = [Log Blank, Log (StopCommands token), Log Blank]\<rparr> tests = Some st1"
  shows "\<exists>st r ext. runAll check_run token tests cwd = Some (st, r)
       \<and> actions st = actions st1 @ ext \<and> started ext = [] \<and> failed st = failed st1
       \<and> total st = Math_round (total st1)
       \<and> (r = Inr () \<or> (\<exists>p a e. check_run p a = Some e \<and> r = Inl e))
       \<and> (\<not> num_gt (Math_round (total st1)) (Num 0) \<longrightarrow> r = Inr () \<and> filter is_summary ext = [])"
  unfolding runAll_def Let_def assms option.case
  by (auto simp: emit_def split: option.splits)

lemma run_ends:
  assumes "setup_cmd test = None \<or> setup_cmd test = Some [] \<or> \<not> list_all is_data (setup_events w)"
    and "\<not> list_all is_data (run_events w)"
  shows "run test cwd w \<noteq> None"
proof -
  have c: "\<exists>fx r. runCommand test cwd ms (run_events w) = Some (fx, r)" for ms
  proof -
    from split_first_event [OF assms(2)] obtain before e later where
      evs: "run_events w = before @ e # later" and d: "list_all is_data before" and e: "\<not> is_data e"
      by blast
    show ?thesis
    proof (cases e)
      case (Exit code signal)
      show ?thesis unfolding evs Exit by (simp add: runCommand_exit [OF d])
    next
      case (ErrorEvent error)
      show ?thesis unfolding evs ErrorEvent by (simp add: runCommand_error [OF d])
    next
      case TimerFired
      show ?thesis unfolding evs TimerFired by (simp add: runCommand_timer [OF d])
    qed (use e in simp_all)
  qed
  have s: "\<exists>fx r. runSetup test cwd ms (setup_events w) = Some (fx, r)" for ms
  proof (cases "setup_cmd test = None \<or> setup_cmd test = Some []")
    case True
    then show ?thesis by (auto simp: runSetup_def)
  next
    case False
    then obtain cmd where cmd: "setup_cmd test = Some cmd" "cmd \<noteq> []" by auto
    from False assms(1) have "\<not> list_all is_data (setup_events w)" by blast
    from split_first_event [OF this] obtain before e later where
      evs: "setup_events w = before @ e # later" and d: "list_all is_data before" and e: "\<not> is_data e"
      by blast
    show ?thesis
    proof (cases e)
      case (Exit code signal)
      show ?thesis unfolding evs Exit by (simp add: runSetup_exit [OF d cmd])
    next
      case (ErrorEvent error)
      show ?thesis unfolding evs ErrorEvent runSetup_def using cmd
        by (simp add: await_setup_data [OF d] child_init_def Let_def settle_def)
    next
      case TimerFired
      show ?thesis unfolding evs TimerFired by (simp add: runSetup_timer [OF d cmd])
    qed (use e in simp_all)
  qed
  from s [of "timeout_ms test"] obtain fx r where
    "runSetup test cwd (timeout_ms test) (setup_events w) = Some (fx, r)" by blast
  with c [of "remaining_ms (timeout_ms test) (elapsed w)"] show ?thesis
    by (cases r) (auto simp: run_def)
qed

lemma run_five: "run graded_test cwd five_world
  = Some ([Spawn (lit ''make grade'') cwd, StdoutWrite (lit ''\<newline>  ''),
           StdoutWrite (lit ''[overall score: 5]\<newline>  '')], Inr (Num 5))"
  by (simp add: run_def runSetup_def runCommand_def graded_test_def five_world_def child_init_def
                preload_def Let_def settle_def indent_def lit_def
                extract_score_def match_at_def marker_open_def rbracket_def
                is_score_char_def is_digit_def is_space_def parseFloat_def digits_value_def)

lemma run_minute: "run input_test cwd minute_world
  = Some ([Spawn (lit ''make'') cwd, StdoutWrite (lit ''\<newline>  ''), StdoutWrite (lit ''compiling''),
           Spawn (lit ''make grade'') cwd, StdoutWrite (lit ''\<newline>  ''),
           StdinWrite (lit ''42\<newline>''), StdinEnd, Kill],
          Inl (TestTimeoutError_new (Num 40000)))"
  unfolding run_def timeout_ms_input_test
  by (simp add: runSetup_def runCommand_def input_test_def graded_test_def minute_world_def
                child_init_def preload_def Let_def settle_def indent_def lit_def
                remaining_ms_def)

lemma run_silent: "run ungraded_test cwd silent_world
  = Some ([Spawn (lit ''make grade'') cwd, StdoutWrite (lit ''\<newline>  '')], Inr (Num 0))"
  by (simp add: run_def runSetup_def runCommand_def ungraded_test_def graded_test_def
                silent_world_def child_init_def
                preload_def Let_def settle_def indent_def lit_def
                extract_score_def match_at_def marker_open_def)

lemma run_empty_marker: "run graded_test cwd empty_marker_world \<noteq> None"
  by (rule run_ends) (simp_all add: graded_test_def empty_marker_world_def)

section \<open>The claims\<close>

text \<open>
  C1. Let the main command write its standard output and then exit with code 0 before the timer
  fires. If the captured output ends in a score marker, that is the opening
  \<^verbatim>\<open>[overall score: \<close>, digits and dots, the closing bracket, and then white space only, then
  \<open>runCommand\<close> returns \<open>parseFloat\<close> of the digits and dots, whatever the points of the test:
  for an output that ends in the line \<^verbatim>\<open>[overall score: 7.5]\<close> and a newline it returns 7.5.
  If the captured output contains no marker at all, \<open>runCommand\<close> returns 0.
\<close>

theorem score_extraction:
  assumes "list_all is_data before"
  shows "(stdout_of before = pre @ marker_open @ d @ rbracket # ws \<and> list_all is_score_char d
            \<and> list_all is_space ws
          \<longrightarrow> map_option snd (runCommand test cwd ms (before @ Exit (Some 0) signal # later))
              = Some (Inr (parseFloat d)))
       \<and> (stdout_of before = pre' @ lit ''[overall score: 7.5]\<newline>''
          \<longrightarrow> map_option snd (runCommand test cwd ms (before @ Exit (Some 0) signal # later))
              = Some (Inr (Num (15 / 2))))
       \<and> ((\<forall>p m q. list_all is_score_char m \<longrightarrow> stdout_of before \<noteq> p @ marker_open @ m @ rbracket # q)
          \<longrightarrow> map_option snd (runCommand test cwd ms (before @ Exit (Some 0) signal # later))
              = Some (Inr (Num 0)))"
proof -
  let ?out = "stdout_of before"
  have res: "map_option snd (runCommand test cwd ms (before @ Exit (Some 0) signal # later))
             = Some (Inr (extract_score ?out))"
    by (simp add: runCommand_exit [OF assms])
  have a: "extract_score ?out = parseFloat d"
    if "?out = pre @ marker_open @ d @ rbracket # ws" "list_all is_score_char d" "list_all is_space ws"
  proof -
    have "matches_at (marker_open @ d @ rbracket # ws) d"
      using that by (auto simp: matches_at_def)
    from regexp_exec_marker_at_end [OF this, of pre] that(1) show ?thesis
      by (simp add: extract_score_def)
  qed
  have b: "extract_score ?out = Num (15 / 2)" if "?out = pre' @ lit ''[overall score: 7.5]\<newline>''"
  proof -
    have "matches_at (lit ''[overall score: 7.5]\<newline>'') (lit ''7.5'')"
      by (simp add: match_at_iff [symmetric] match_at_def marker_open_def lit_def rbracket_def
                    is_score_char_def is_digit_def is_space_def)
    from regexp_exec_marker_at_end [OF this, of pre'] that have "extract_score ?out = parseFloat (lit ''7.5'')"
      by (simp add: extract_score_def)
    also have "\<dots> = Num (15 / 2)"
      by (simp add: parseFloat_def lit_def is_digit_def digits_value_def)
    finally show ?thesis .
  qed
  have c: "extract_score ?out = Num 0"
    if no: "\<forall>p m q. list_all is_score_char m \<longrightarrow> ?out \<noteq> p @ marker_open @ m @ rbracket # q"
  proof (cases "regexp_exec ?out")
    case None
    then show ?thesis by (simp add: extract_score_def)
  next
    case (Some m)
    from regexp_exec_Some_D [OF this] obtain p suf where "?out = p @ suf" "matches_at suf m"
      by blast
    then obtain q where "?out = p @ marker_open @ m @ rbracket # q" "list_all is_score_char m"
      by (auto simp: matches_at_def)
    with no show ?thesis by blast
  qed
  show ?thesis unfolding res using a b c by blast
qed

theorem score_extraction_witness:
  "map_option snd
     (runCommand graded_test (lit ''/work'') (Num 60000)
        ([StdoutData (lit ''building\<newline>''), StderrData (lit ''warning''),
          StdoutData (lit ''[overall score: 7.5]\<newline>'')] @ Exit (Some 0) None # []))
   = Some (Inr (Num (15 / 2)))
   \<and> parseFloat (lit ''7.5'') = Num (15 / 2)
   \<and> points graded_test = Some (Num 5)
   \<and> map_option snd
     (runCommand graded_test (lit ''/work'') (Num 60000)
        ([StdoutData (lit ''hello\<newline>'')] @ Exit (Some 0) None # []))
   = Some (Inr (Num 0))"
proof -
  let ?b1 = "[StdoutData (lit ''building\<newline>''), StderrData (lit ''warning''),
              StdoutData (lit ''[overall score: 7.5]\<newline>'')]"
  let ?b2 = "[StdoutData (lit ''hello\<newline>'')]"
  have d1: "list_all is_data ?b1" by simp
  have d2: "list_all is_data ?b2" by simp
  have s1: "stdout_of ?b1 = lit ''building\<newline>'' @ marker_open @ lit ''7.5'' @ rbracket # [0x0A]
            \<and> list_all is_score_char (lit ''7.5'') \<and> list_all is_space [0x0A]"
    by (simp add: lit_def marker_open_def rbracket_def is_score_char_def is_digit_def is_space_def)
  have pf: "parseFloat (lit ''7.5'') = Num (15 / 2)"
    by (simp add: parseFloat_def lit_def is_digit_def digits_value_def)
  have "rbracket \<notin> set (stdout_of ?b2)"
    by (simp add: lit_def rbracket_def)
  then have s2: "\<forall>p m q. list_all is_score_char m \<longrightarrow> stdout_of ?b2 \<noteq> p @ marker_open @ m @ rbracket # q"
    by (metis in_set_conv_decomp append.assoc)
  show ?thesis
    using score_extraction [OF d1, of "lit ''building\<newline>''" "lit ''7.5''" "[0x0A]" graded_test "lit ''/work''"
                            "Num 60000" None "[]"]
          score_extraction [OF d2, of _ _ _ graded_test "lit ''/work''" "Num 60000" None "[]"]
          s1 s2 pf
    by (simp add: graded_test_def)
qed

text \<open>
  C6 (as stated, refuted). The output \<^verbatim>\<open>[overall score: 7.5]\<close>, newline, \<^verbatim>\<open>bye\<close>, newline
  has the marker in the middle, followed by other text: \<open>runCommand\<close> returns 0, not 7.5.
\<close>

theorem marker_in_middle_counterexample:
  "map_option snd
     (runCommand graded_test (lit ''/work'') (Num 60000)
        [StdoutData (lit ''[overall score: 7.5]\<newline>bye\<newline>''), Exit (Some 0) None])
   = Some (Inr (Num 0))
   \<and> parseFloat (lit ''7.5'') = Num (15 / 2)"
proof -
  have "runCommand graded_test (lit ''/work'') (Num 60000)
          ([StdoutData (lit ''[overall score: 7.5]\<newline>bye\<newline>'')] @ Exit (Some 0) None # [])
        = Some ([Spawn (run_cmd graded_test) (lit ''/work''), StdoutWrite (indent [0x0A])]
                  @ preload (input_text graded_test)
                  @ forwarded [StdoutData (lit ''[overall score: 7.5]\<newline>bye\<newline>'')],
                Inr (extract_score (stdout_of [StdoutData (lit ''[overall score: 7.5]\<newline>bye\<newline>'')])))"
    by (subst runCommand_exit) simp_all
  moreover have "extract_score (stdout_of [StdoutData (lit ''[overall score: 7.5]\<newline>bye\<newline>'')]) = Num 0"
    by (simp add: extract_score_def match_at_def marker_open_def lit_def rbracket_def
                  is_score_char_def is_digit_def is_space_def)
  moreover have "parseFloat (lit ''7.5'') = Num (15 / 2)"
    by (simp add: parseFloat_def lit_def is_digit_def digits_value_def)
  ultimately show ?thesis by simp
qed

text \<open>
  C6 (amended). Let the main command exit with code 0 before the timer fires. If a marker in
  the captured output is followed by text that is not white space only, that marker is not
  matched: \<open>runCommand\<close> returns the score of the trailing text alone, which is 0 when the
  trailing text does not itself end in a marker.
\<close>

theorem marker_in_middle_ignored:
  assumes "list_all is_data before"
    and "stdout_of before = pre @ marker_open @ d @ rbracket # trailing"
    and "\<not> list_all is_space trailing"
  shows "map_option snd (runCommand test cwd ms (before @ Exit (Some 0) signal # later))
         = Some (Inr (extract_score trailing))
       \<and> ((\<forall>p m q. list_all is_score_char m \<and> list_all is_space q
                    \<longrightarrow> trailing \<noteq> p @ marker_open @ m @ rbracket # q)
          \<longrightarrow> map_option snd (runCommand test cwd ms (before @ Exit (Some 0) signal # later))
              = Some (Inr (Num 0)))"
proof -
  have res: "map_option snd (runCommand test cwd ms (before @ Exit (Some 0) signal # later))
             = Some (Inr (extract_score (stdout_of before)))"
    by (simp add: runCommand_exit [OF assms(1)])
  have "regexp_exec ((pre @ marker_open @ d) @ rbracket # trailing) = regexp_exec trailing"
    by (rule regexp_exec_after_bracket [OF assms(3)])
  then have eq: "extract_score (stdout_of before) = extract_score trailing"
    by (simp add: extract_score_def assms(2))
  have "extract_score trailing = Num 0"
    if "\<forall>p m q. list_all is_score_char m \<and> list_all is_space q
                 \<longrightarrow> trailing \<noteq> p @ marker_open @ m @ rbracket # q"
    using regexp_exec_None_I [OF that] by (simp add: extract_score_def)
  then show ?thesis unfolding res eq by blast
qed

theorem marker_in_middle_ignored_witness:
  "map_option snd
     (runCommand graded_test (lit ''/work'') (Num 60000)
        ([StdoutData (lit ''ok\<newline>[overall score: 7.5]\<newline>''), StdoutData (lit ''bye\<newline>'')]
         @ Exit (Some 0) None # []))
   = Some (Inr (Num 0))"
proof -
  let ?b = "[StdoutData (lit ''ok\<newline>[overall score: 7.5]\<newline>''), StdoutData (lit ''bye\<newline>'')]"
  have d: "list_all is_data ?b" by simp
  have s: "stdout_of ?b = lit ''ok\<newline>'' @ marker_open @ lit ''7.5'' @ rbracket # lit ''\<newline>bye\<newline>''"
    by (simp add: lit_def marker_open_def rbracket_def)
  have n: "\<not> list_all is_space (lit ''\<newline>bye\<newline>'')"
    by (simp add: lit_def is_space_def)
  have "rbracket \<notin> set (lit ''\<newline>bye\<newline>'')"
    by (simp add: lit_def rbracket_def)
  then have a: "\<forall>p m q. list_all is_score_char m \<and> list_all is_space q
                 \<longrightarrow> lit ''\<newline>bye\<newline>'' \<noteq> p @ marker_open @ m @ rbracket # q"
    by (metis in_set_conv_decomp append.assoc)
  show ?thesis
    using marker_in_middle_ignored [OF d s n, of graded_test "lit ''/work''" "Num 60000" None "[]"] a
    by blast
qed

text \<open>
  C2. Let the timer of \<open>waitForExit\<close> fire while it is still pending, that is before an
  \<open>exit\<close> or \<open>error\<close> event of the child was handled. Then \<open>kill\<close> is called on the child's
  pid, the promise is rejected with a \<open>TestTimeoutError\<close> whose message holds the timeout that
  was passed in, and whatever events follow (exit, error, another expiry), the promise stays
  rejected with that error and nothing more is done.
\<close>

theorem timeout_is_final:
  assumes "timer c" and "promise c = None"
  shows "promise (waitForExit_step ms c TimerFired) = Some (Inl (TestTimeoutError_new ms))
       \<and> effects (waitForExit_step ms c TimerFired) = effects c @ [Kill]
       \<and> error_class (TestTimeoutError_new ms) = TestTimeoutError
       \<and> NumberValue ms \<in> set (message (TestTimeoutError_new ms))
       \<and> promise (foldl (waitForExit_step ms) (waitForExit_step ms c TimerFired) later)
           = Some (Inl (TestTimeoutError_new ms))
       \<and> effects (foldl (waitForExit_step ms) (waitForExit_step ms c TimerFired) later)
           = effects c @ [Kill]
       \<and> (\<exists>c'. await_exit (waitForExit_step ms) c (TimerFired # later)
                 = Some (c', Inl (TestTimeoutError_new ms)))"
proof -
  let ?c = "waitForExit_step ms c TimerFired"
  have st: "?c = c\<lparr>timer := False, timedOut := True, promise := Some (Inl (TestTimeoutError_new ms)),
                    effects := effects c @ [Kill]\<rparr>"
    by (rule step_timer [OF assms])
  have t: "timedOut ?c" "\<not> timer ?c" unfolding st by simp_all
  from settled_steps [OF t, of ms later]
  have "promise (foldl (waitForExit_step ms) ?c later) = promise ?c"
    and "effects (foldl (waitForExit_step ms) ?c later) = effects ?c"
    by simp_all
  moreover have p: "promise ?c = Some (Inl (TestTimeoutError_new ms))" "effects ?c = effects c @ [Kill]"
    unfolding st by simp_all
  moreover have "await_exit (waitForExit_step ms) c (TimerFired # later)
                 = Some (?c, Inl (TestTimeoutError_new ms))"
    using p(1) by (simp only: await_exit.simps Let_def option.case)
  ultimately show ?thesis by (simp add: TestTimeoutError_new_def)
qed

theorem timeout_is_final_witness:
  "promise (foldl (waitForExit_step (Num 40000))
              (waitForExit_step (Num 40000) (child_init []) TimerFired)
              [Exit None (Some (lit ''SIGTERM'')), ErrorEvent (JsError Error [Str (lit ''late'')]),
               Exit (Some 0) None])
   = Some (Inl (TestTimeoutError_new (Num 40000)))
   \<and> effects (foldl (waitForExit_step (Num 40000))
              (waitForExit_step (Num 40000) (child_init []) TimerFired)
              [Exit None (Some (lit ''SIGTERM'')), ErrorEvent (JsError Error [Str (lit ''late'')]),
               Exit (Some 0) None])
   = [Kill]"
proof -
  have a: "timer (child_init [])" and b: "promise (child_init []) = None"
    by (simp_all add: child_init_def)
  show ?thesis
    using timeout_is_final [OF a b, of "Num 40000"
            "[Exit None (Some (lit ''SIGTERM'')), ErrorEvent (JsError Error [Str (lit ''late'')]),
              Exit (Some 0) None]"]
    by (simp add: child_init_def)
qed

text \<open>
  C5. Let the \<open>exit\<close> event be the first event of the child other than output, so that the
  child exits on its own before the timer fires. Then the timer is cleared and \<open>timedOut\<close> stays
  false. With exit code 0 the wait resolves, and \<open>runCommand\<close> returns the score of the standard
  output collected up to the exit. With any other code, \<open>null\<close> included, the wait is rejected
  with a \<open>TestError\<close> whose message holds that code and the signal.
\<close>

theorem exit_code_interpretation:
  assumes "list_all is_data before"
  shows "(\<exists>c'. await_exit (command_handler ms) (child_init fx0) (before @ Exit code signal # later)
                = Some (c', if code = Some 0 then Inr () else Inl (TestError_new code signal))
              \<and> \<not> timer c' \<and> \<not> timedOut c' \<and> buffer c' = stdout_of before)
       \<and> runCommand test cwd ms (before @ Exit code signal # later)
         = Some ([Spawn (run_cmd test) cwd, StdoutWrite (indent [0x0A])] @ preload (input_text test)
                   @ forwarded before,
                 if code = Some 0 then Inr (extract_score (stdout_of before))
                 else Inl (TestError_new code signal))
       \<and> error_class (TestError_new code signal) = TestError
       \<and> CodeValue code \<in> set (message (TestError_new code signal))
       \<and> SignalValue signal \<in> set (message (TestError_new code signal))"
proof -
  have "await_exit (command_handler ms) (child_init fx0) (before @ Exit code signal # later)
        = await_exit (command_handler ms)
            ((child_init fx0)\<lparr>effects := effects (child_init fx0) @ forwarded before,
                               buffer := buffer (child_init fx0) @ stdout_of before\<rparr>)
            (Exit code signal # later)"
    by (rule await_command_data [OF assms]) (simp add: child_init_def)
  then have "\<exists>c'. await_exit (command_handler ms) (child_init fx0) (before @ Exit code signal # later)
                = Some (c', if code = Some 0 then Inr () else Inl (TestError_new code signal))
              \<and> \<not> timer c' \<and> \<not> timedOut c' \<and> buffer c' = stdout_of before"
    by (simp add: child_init_def Let_def settle_def)
  moreover note runCommand_exit [OF assms, of test cwd ms code signal later]
  ultimately show ?thesis by (simp add: TestError_new_def)
qed

theorem exit_code_interpretation_witness:
  "runCommand graded_test (lit ''/work'') (Num 60000)
     ([StdoutData (lit ''[overall score: 3]'')] @ Exit (Some 0) None # [TimerFired])
   = Some ([Spawn (lit ''make grade'') (lit ''/work''), StdoutWrite (lit ''\<newline>  ''),
            StdoutWrite (lit ''[overall score: 3]'')], Inr (Num 3))
   \<and> runCommand graded_test (lit ''/work'') (Num 60000)
     ([StdoutData (lit ''[overall score: 3]'')] @ Exit (Some 2) None # [TimerFired])
   = Some ([Spawn (lit ''make grade'') (lit ''/work''), StdoutWrite (lit ''\<newline>  ''),
            StdoutWrite (lit ''[overall score: 3]'')], Inl (TestError_new (Some 2) None))"
proof -
  have d: "list_all is_data [StdoutData (lit ''[overall score: 3]'')]" by simp
  have e: "extract_score (lit ''[overall score: 3]'') = Num 3"
    by (simp add: extract_score_def match_at_def marker_open_def lit_def rbracket_def
                  is_score_char_def is_digit_def is_space_def parseFloat_def digits_value_def)
  show ?thesis
    using exit_code_interpretation [OF d, of "Num 60000" "[]" "Some 0" None "[TimerFired]" graded_test "lit ''/work''"]
          exit_code_interpretation [OF d, of "Num 60000" "[]" "Some 2" None "[TimerFired]" graded_test "lit ''/work''"]
          e
    by (simp add: graded_test_def preload_def indent_def lit_def)
qed

text \<open>
  C7 (as stated, refuted). For a test without \<open>input\<close> the runner does nothing to the child's
  standard input: the actions of \<open>runCommand\<close> are the spawn and the first line, and \<open>end\<close> is
  not among them.
\<close>

theorem stdin_not_closed_counterexample:
  "input_text graded_test = None
   \<and> map_option fst (runCommand graded_test (lit ''/work'') (Num 60000) [Exit (Some 0) None])
     = Some [Spawn (lit ''make grade'') (lit ''/work''), StdoutWrite (lit ''\<newline>  '')]
   \<and> StdinEnd \<notin> set [Spawn (lit ''make grade'') (lit ''/work''), StdoutWrite (lit ''\<newline>  '')]"
  by (simp add: runCommand_def child_init_def graded_test_def preload_def Let_def settle_def
                indent_def lit_def)

text \<open>
  C7 (amended). Let the main child come to an end (some event other than output arrives). If
  \<open>input\<close> is given and not empty, it is written to the child's standard input right after the
  spawn and the stream is then ended, and there is no other write or end. If \<open>input\<close> is absent
  or empty, nothing is written to the child's standard input and the stream is not ended.
\<close>

theorem stdin_preload:
  assumes "\<not> list_all is_data evs"
  shows "\<exists>fx r. runCommand test cwd ms evs = Some (fx, r)
       \<and> (\<forall>s. input_text test = Some s \<and> s \<noteq> []
              \<longrightarrow> (\<exists>rest. fx = [Spawn (run_cmd test) cwd, StdoutWrite (indent [0x0A]),
                                 StdinWrite s, StdinEnd] @ rest
                          \<and> StdinEnd \<notin> set rest \<and> (\<forall>x. StdinWrite x \<notin> set rest)))
       \<and> (input_text test = None \<or> input_text test = Some []
              \<longrightarrow> StdinEnd \<notin> set fx \<and> (\<forall>x. StdinWrite x \<notin> set fx))"
proof -
  from split_first_event [OF assms] obtain before e later where
    evs: "evs = before @ e # later" and d: "list_all is_data before" and e: "\<not> is_data e"
    by blast
  let ?fx0 = "[Spawn (run_cmd test) cwd, StdoutWrite (indent [0x0A])] @ preload (input_text test)"
  have "\<exists>r tail. runCommand test cwd ms evs = Some (?fx0 @ forwarded before @ tail, r)
                \<and> (tail = [] \<or> tail = [Kill])"
  proof (cases e)
    case (Exit code signal)
    show ?thesis unfolding evs Exit using runCommand_exit [OF d, of test cwd ms code signal later]
      by simp
  next
    case (ErrorEvent error)
    show ?thesis unfolding evs ErrorEvent using runCommand_error [OF d, of test cwd ms error later]
      by simp
  next
    case TimerFired
    show ?thesis unfolding evs TimerFired using runCommand_timer [OF d, of test cwd ms later]
      by simp
  qed (use e in simp_all)
  then obtain r tail where
    rc: "runCommand test cwd ms evs = Some (?fx0 @ forwarded before @ tail, r)"
    and tail: "tail = [] \<or> tail = [Kill]"
    by blast
  have ns: "StdinEnd \<notin> set (forwarded before @ tail)" "\<And>x. StdinWrite x \<notin> set (forwarded before @ tail)"
    using tail no_stdin_forwarded [of before] by auto
  have a: "\<forall>s. input_text test = Some s \<and> s \<noteq> []
              \<longrightarrow> (\<exists>rest. ?fx0 @ forwarded before @ tail
                            = [Spawn (run_cmd test) cwd, StdoutWrite (indent [0x0A]),
                               StdinWrite s, StdinEnd] @ rest
                          \<and> StdinEnd \<notin> set rest \<and> (\<forall>x. StdinWrite x \<notin> set rest))"
    using ns by (auto simp: preload_def)
  have b: "input_text test = None \<or> input_text test = Some []
           \<longrightarrow> StdinEnd \<notin> set (?fx0 @ forwarded before @ tail)
               \<and> (\<forall>x. StdinWrite x \<notin> set (?fx0 @ forwarded before @ tail))"
    using ns by (auto simp: preload_def)
  show ?thesis using rc a b by blast
qed

theorem stdin_preload_witness:
  "(\<exists>fx r. runCommand input_test (lit ''/work'') (Num 60000) [StdoutData (lit ''hi''), Exit (Some 0) None]
            = Some (fx, r)
          \<and> (\<exists>rest. fx = [Spawn (lit ''make grade'') (lit ''/work''), StdoutWrite (indent [0x0A]),
                            StdinWrite (lit ''42\<newline>''), StdinEnd] @ rest
                     \<and> StdinEnd \<notin> set rest \<and> (\<forall>x. StdinWrite x \<notin> set rest)))
   \<and> (\<exists>fx r. runCommand graded_test (lit ''/work'') (Num 60000) [StdoutData (lit ''hi''), Exit (Some 0) None]
            = Some (fx, r)
          \<and> StdinEnd \<notin> set fx \<and> (\<forall>x. StdinWrite x \<notin> set fx))"
proof -
  have n: "\<not> list_all is_data [StdoutData (lit ''hi''), Exit (Some 0) None]" by simp
  have i: "input_text input_test = Some (lit ''42\<newline>'') \<and> lit ''42\<newline>'' \<noteq> []"
    "run_cmd input_test = lit ''make grade''"
    by (simp_all add: input_test_def graded_test_def lit_def)
  have g: "input_text graded_test = None" by (simp add: graded_test_def)
  show ?thesis
    using stdin_preload [OF n, of input_test "lit ''/work''" "Num 60000"]
          stdin_preload [OF n, of graded_test "lit ''/work''" "Num 60000"] i g
    by (metis (no_types, lifting))
qed

text \<open>
  C8 (as stated, refuted). For a timeout of \<^verbatim>\<open>0.03\<close> minutes the budget of line 165 is
  \<open>1800 - 1 / 2 ^ 42\<close>, printed \<^verbatim>\<open>1799.9999999999998\<close>: the product with 60 is rounded, and so
  is the product with 1000. It is not the timeout times 60000, which is 1800 for the decimal
  0.03 and also for the binary64 value of 0.03 once the product is rounded.
\<close>

theorem timeout_resolution_counterexample:
  "timeout_ms short_test = Num (1800 - 1 / 2 ^ 42)
   \<and> timeout short_test = Some (Num (round64 (3 / 100)))
   \<and> (3 / 100 :: rat) * 60000 = 1800
   \<and> round64 (round64 (3 / 100) * 60000) = 1800
   \<and> round64 (3 / 100) * 60000 \<noteq> 1800 - 1 / 2 ^ 42"
proof -
  have nz: "round64 (3 / 100) \<noteq> 0"
    by code_simp
  have v: "round64 (round64 (round64 (3 / 100) * 60) * 1000) = 1800 - 1 / 2 ^ 42"
    by code_simp
  have t: "timeout short_test = Some (Num (round64 (3 / 100)))"
    by (simp add: short_test_def)
  have "timeout_ms short_test = Num (1800 - 1 / 2 ^ 42)"
    unfolding timeout_ms_Num t by (simp only: option.case number.case nz v if_False) simp
  moreover have "(3 / 100 :: rat) * 60000 = 1800"
    by simp
  moreover have "round64 (round64 (3 / 100) * 60000) = 1800"
    by code_simp
  moreover have "round64 (3 / 100) * 60000 \<noteq> 1800 - 1 / 2 ^ 42"
    by code_simp
  ultimately show ?thesis using t by blast
qed

text \<open>
  C8 (amended). The budget in milliseconds is the declared timeout, in minutes, times 60 and
  then times 1000, each product rounded to binary64 (with the fallback 30000 of line 165 should
  the result be 0). For every whole number of minutes up to 150119987579 in magnitude both
  products are exact and the budget is the timeout times 60000. A timeout of 0 and an absent
  timeout give 60000. This budget is the one of the setup phase: when the timer of the setup
  child fires, the error of \<open>run\<close> holds it.
\<close>

theorem timeout_resolution:
  "(timeout test = Some (Num m) \<and> m \<noteq> 0
      \<longrightarrow> timeout_ms test = num_or (Num (round64 (round64 (m * 60) * 1000))) (Num 30000))
   \<and> (timeout test = Some (Num (of_int k)) \<and> k \<noteq> 0 \<and> \<bar>k\<bar> \<le> 150119987579
      \<longrightarrow> timeout_ms test = Num (of_int k * 60000))
   \<and> (timeout test = Some (Num 0) \<or> timeout test = None \<longrightarrow> timeout_ms test = Num 60000)
   \<and> (setup_cmd test = Some cmd \<and> cmd \<noteq> [] \<and> list_all is_data before
        \<and> setup_events w = before @ TimerFired # later
      \<longrightarrow> run test cwd w
          = Some ([Spawn cmd cwd, StdoutWrite (indent [0x0A])] @ forwarded before @ [Kill],
                  Inl (TestTimeoutError_new (timeout_ms test))))"
proof -
  have a: "timeout test = Some (Num m) \<and> m \<noteq> 0
      \<longrightarrow> timeout_ms test = num_or (Num (round64 (round64 (m * 60) * 1000))) (Num 30000)"
    by (simp add: timeout_ms_Num num_or_def)
  have k: "timeout test = Some (Num (of_int k)) \<and> k \<noteq> 0 \<and> \<bar>k\<bar> \<le> 150119987579
      \<longrightarrow> timeout_ms test = Num (of_int k * 60000)"
    using timeout_ms_whole [of test k] by blast
  have b: "timeout test = Some (Num 0) \<or> timeout test = None \<longrightarrow> timeout_ms test = Num 60000"
    by (auto simp: timeout_ms_Num)
  have c: "run test cwd w
          = Some ([Spawn cmd cwd, StdoutWrite (indent [0x0A])] @ forwarded before @ [Kill],
                  Inl (TestTimeoutError_new (timeout_ms test)))"
    if "setup_cmd test = Some cmd" "cmd \<noteq> []" "list_all is_data before"
       "setup_events w = before @ TimerFired # later"
    unfolding run_def that(4)
    by (simp add: runSetup_timer [OF that(3) that(1) that(2)])
  show ?thesis using a k b c by blast
qed

theorem timeout_resolution_witness:
  "timeout_ms (input_test\<lparr>timeout := Some (Num 2)\<rparr>) = Num 120000
   \<and> timeout_ms (input_test\<lparr>timeout := Some (Num (5 / 2))\<rparr>) = Num 150000
   \<and> timeout_ms (input_test\<lparr>timeout := Some (Num 0)\<rparr>) = Num 60000
   \<and> timeout_ms (input_test\<lparr>timeout := None\<rparr>) = Num 60000
   \<and> run (input_test\<lparr>timeout := Some (Num 2)\<rparr>) (lit ''/work'')
        (minute_world\<lparr>setup_events := [StdoutData (lit ''compiling'')] @ TimerFired # []\<rparr>)
     = Some ([Spawn (lit ''make'') (lit ''/work''), StdoutWrite (indent [0x0A])]
               @ forwarded [StdoutData (lit ''compiling'')] @ [Kill],
             Inl (TestTimeoutError_new (Num 120000)))"
proof -
  let ?t2 = "input_test\<lparr>timeout := Some (Num 2)\<rparr>"
  let ?t5 = "input_test\<lparr>timeout := Some (Num (5 / 2))\<rparr>"
  let ?w = "minute_world\<lparr>setup_events := [StdoutData (lit ''compiling'')] @ TimerFired # []\<rparr>"
  have h: "setup_cmd ?t2 = Some (lit ''make'') \<and> lit ''make'' \<noteq> []
           \<and> list_all is_data [StdoutData (lit ''compiling'')]
           \<and> setup_events ?w = [StdoutData (lit ''compiling'')] @ TimerFired # []"
    by (simp add: input_test_def lit_def)
  have t: "timeout ?t2 = Some (Num (of_int 2)) \<and> (2::int) \<noteq> 0 \<and> \<bar>2::int\<bar> \<le> 150119987579"
    by simp
  have f: "timeout ?t5 = Some (Num (5 / 2)) \<and> (5 / 2 :: rat) \<noteq> 0" by simp
  have z: "timeout (input_test\<lparr>timeout := Some (Num 0)\<rparr>) = Some (Num 0)"
    "timeout (input_test\<lparr>timeout := None\<rparr>) = None" by simp_all
  have r2: "timeout_ms ?t2 = Num 120000"
    using timeout_resolution [of ?t2 _ 2] t by simp
  have e5: "num_or (Num (round64 (round64 (5 / 2 * 60) * 1000))) (Num 30000) = Num 150000"
    by code_simp
  have r5: "timeout_ms ?t5 = Num 150000"
    using timeout_resolution [of ?t5 "5 / 2"] f unfolding e5 by blast
  have r0: "timeout_ms (input_test\<lparr>timeout := Some (Num 0)\<rparr>) = Num 60000"
    using timeout_resolution [of "input_test\<lparr>timeout := Some (Num 0)\<rparr>"] z by blast
  have rn: "timeout_ms (input_test\<lparr>timeout := None\<rparr>) = Num 60000"
    using timeout_resolution [of "input_test\<lparr>timeout := None\<rparr>"] z by blast
  have rs: "run ?t2 (lit ''/work'') ?w
     = Some ([Spawn (lit ''make'') (lit ''/work''), StdoutWrite (indent [0x0A])]
               @ forwarded [StdoutData (lit ''compiling'')] @ [Kill],
             Inl (TestTimeoutError_new (timeout_ms ?t2)))"
    using timeout_resolution [of ?t2 _ _ "lit ''make''" "[StdoutData (lit ''compiling'')]" ?w "[]"
                                 "lit ''/work''"] h
    by blast
  show ?thesis using r2 r5 r0 rn rs by simp
qed

text \<open>
  C4. Let the setup phase succeed (or be absent) and let \<open>process.hrtime(start)\<close> return \<open>s\<close>
  seconds and \<open>ns\<close> nanoseconds. Then \<open>runCommand\<close> is called with the budget minus the whole
  milliseconds elapsed, \<open>1000 * s + ns div 1000000\<close>, whatever its sign: with a budget of 60000
  and 20000 elapsed milliseconds, with 40000.
\<close>

theorem budget_propagation:
  assumes "runSetup test cwd (timeout_ms test) (setup_events w) = Some (fx, Inr ())"
    and "elapsed w = (s, ns)"
  shows "\<exists>b. timeout_ms test = Num b
       \<and> remaining_ms (timeout_ms test) (elapsed w) = Num (b - of_nat (1000 * s + ns div 1000000))
       \<and> run test cwd w
         = (case runCommand test cwd (Num (b - of_nat (1000 * s + ns div 1000000))) (run_events w) of
              None \<Rightarrow> None
            | Some (fx', r) \<Rightarrow> Some (fx @ fx', r))
       \<and> (b = 60000 \<and> 1000 * s + ns div 1000000 = 20000
          \<longrightarrow> run test cwd w
              = (case runCommand test cwd (Num 40000) (run_events w) of
                   None \<Rightarrow> None
                 | Some (fx', r) \<Rightarrow> Some (fx @ fx', r)))"
proof -
  obtain b where b: "timeout_ms test = Num b" using timeout_ms_Num [of test] by blast
  have r: "remaining_ms (timeout_ms test) (elapsed w) = Num (b - of_nat (1000 * s + ns div 1000000))"
    unfolding b assms(2) by (rule remaining_ms_Num)
  have run: "run test cwd w
         = (case runCommand test cwd (Num (b - of_nat (1000 * s + ns div 1000000))) (run_events w) of
              None \<Rightarrow> None
            | Some (fx', r) \<Rightarrow> Some (fx @ fx', r))"
    unfolding r [symmetric] by (simp add: run_def assms(1))
  have "run test cwd w
              = (case runCommand test cwd (Num 40000) (run_events w) of
                   None \<Rightarrow> None
                 | Some (fx', r) \<Rightarrow> Some (fx @ fx', r))"
    if "b = 60000" "1000 * s + ns div 1000000 = 20000"
    unfolding run that by simp
  with b r run show ?thesis by blast
qed

theorem budget_propagation_witness:
  "run input_test (lit ''/work'') minute_world
   = Some ([Spawn (lit ''make'') (lit ''/work''), StdoutWrite (indent [0x0A]),
            StdoutWrite (indent (lit ''compiling'')),
            Spawn (lit ''make grade'') (lit ''/work''), StdoutWrite (indent [0x0A]),
            StdinWrite (lit ''42\<newline>''), StdinEnd, Kill],
           Inl (TestTimeoutError_new (Num 40000)))
   \<and> run input_test (lit ''/work'') (minute_world\<lparr>elapsed := (75, 999999999)\<rparr>)
   = Some ([Spawn (lit ''make'') (lit ''/work''), StdoutWrite (indent [0x0A]),
            StdoutWrite (indent (lit ''compiling'')),
            Spawn (lit ''make grade'') (lit ''/work''), StdoutWrite (indent [0x0A]),
            StdinWrite (lit ''42\<newline>''), StdinEnd, Kill],
           Inl (TestTimeoutError_new (Num (- 15999))))"
proof -
  have tm: "timeout_ms input_test = Num 60000"
    by (rule timeout_ms_input_test)
  have d: "list_all is_data [StdoutData (lit ''compiling'')]" by simp
  have sc: "setup_cmd input_test = Some (lit ''make'')" "lit ''make'' \<noteq> []"
    by (simp_all add: input_test_def lit_def)
  have su: "runSetup input_test (lit ''/work'') (timeout_ms input_test) (setup_events minute_world)
            = Some ([Spawn (lit ''make'') (lit ''/work''), StdoutWrite (indent [0x0A]),
                     StdoutWrite (indent (lit ''compiling''))], Inr ())"
    using runSetup_exit [OF d sc, of "lit ''/work''" "Num 60000" "Some 0" None "[]"]
    by (simp add: minute_world_def tm)
  have su': "runSetup input_test (lit ''/work'') (timeout_ms input_test)
               (setup_events (minute_world\<lparr>elapsed := (75, 999999999)\<rparr>))
            = Some ([Spawn (lit ''make'') (lit ''/work''), StdoutWrite (indent [0x0A]),
                     StdoutWrite (indent (lit ''compiling''))], Inr ())"
    using su by simp
  have el: "elapsed minute_world = (20, 0)" by (simp add: minute_world_def)
  have el': "elapsed (minute_world\<lparr>elapsed := (75, 999999999)\<rparr>) = (75, 999999999)" by simp
  have rc: "runCommand input_test (lit ''/work'') ms ([] @ TimerFired # [])
            = Some ([Spawn (lit ''make grade'') (lit ''/work''), StdoutWrite (indent [0x0A]),
                     StdinWrite (lit ''42\<newline>''), StdinEnd, Kill], Inl (TestTimeoutError_new ms))" for ms
    by (subst runCommand_timer) (simp_all add: input_test_def graded_test_def preload_def lit_def)
  have re: "run_events minute_world = [TimerFired]"
    "run_events (minute_world\<lparr>elapsed := (75, 999999999)\<rparr>) = [TimerFired]"
    by (simp_all add: minute_world_def)
  show ?thesis
    using budget_propagation [OF su el] budget_propagation [OF su' el'] rc [of "Num 40000"]
          rc [of "Num (- 15999)"]
    by (simp add: tm re)
qed

text \<open>
  C3. Let every test of the list come to an end: its \<open>run\<close> resolves or throws. Then \<open>runAll\<close>
  returns, every test was started, in the order of the list, and for each test whose \<open>run\<close>
  threw an error, \<open>failed\<close> is set, the red line of that test is logged and \<open>core.setFailed\<close>
  was called with the message of the error. The promise of \<open>runAll\<close> is resolved, unless the
  final \<open>setCheckRunOutput\<close> rejected: no error of a test comes out of \<open>runAll\<close>.
\<close>

theorem errors_caught_per_test:
  assumes "\<forall>tw\<in>set tests. run (fst tw) cwd (snd tw) \<noteq> None"
  shows "\<exists>st r. runAll check_run token tests cwd = Some (st, r)
     \<and> started (actions st) = map (name \<circ> fst) tests
     \<and> (\<forall>tw fx e. tw \<in> set tests \<and> run (fst tw) cwd (snd tw) = Some (fx, Inl e)
          \<longrightarrow> failed st \<and> Log (Failed (name (fst tw))) \<in> set (actions st)
              \<and> SetFailed (message e) \<in> set (actions st))
     \<and> (r = Inr () \<or> (\<exists>p a e. check_run p a = Some e \<and> r = Inl e))"
proof -
  let ?st0 = "\<lparr>total = Num 0, availablePoints = Num 0, failed = False,
                 actions = [Log Blank, Log (StopCommands token), Log Blank]\<rparr>"
  from run_tests_returns [OF assms] obtain st1 where st1: "run_tests cwd ?st0 tests = Some st1"
    by blast
  from runAll_Some [OF st1, of check_run] obtain st r ext where
    ra: "runAll check_run token tests cwd = Some (st, r)"
    and act: "actions st = actions st1 @ ext" and ext: "started ext = []"
    and f: "failed st = failed st1"
    and r: "r = Inr () \<or> (\<exists>p a e. check_run p a = Some e \<and> r = Inl e)"
    by blast
  from run_tests_mono [OF st1] obtain ext1 where
    e1: "actions st1 = actions ?st0 @ ext1" "started ext1 = map (name \<circ> fst) tests"
    by blast
  have order: "started (actions st) = map (name \<circ> fst) tests"
    using act ext e1 by (simp add: started_append)
  have caught: "failed st \<and> Log (Failed (name (fst tw))) \<in> set (actions st)
                \<and> SetFailed (message e) \<in> set (actions st)"
    if "tw \<in> set tests" "run (fst tw) cwd (snd tw) = Some (fx, Inl e)" for tw fx e
  proof -
    from run_tests_member [OF st1 that(1)] obtain sa sb ext2 where
      sb: "run_test cwd sa tw = Some sb" and a2: "actions st1 = actions sb @ ext2"
      and fm: "failed sb \<longrightarrow> failed st1"
      by blast
    from run_test_Some [OF sb] that(2) have
      "failed sb" "Log (Failed (name (fst tw))) \<in> set (actions sb)"
      "SetFailed (message e) \<in> set (actions sb)"
      by auto
    with fm f act a2 show ?thesis by simp
  qed
  from ra order caught r show ?thesis by blast
qed

theorem errors_caught_per_test_witness:
  "\<exists>st. runAll no_check_run (lit ''token'')
          [(graded_test, five_world), (input_test, minute_world), (graded_test, five_world)]
          (lit ''/work'') = Some (st, Inr ())
     \<and> started (actions st) = [lit ''grade'', lit ''grade'', lit ''grade'']
     \<and> failed st
     \<and> Log (Failed (lit ''grade'')) \<in> set (actions st)
     \<and> SetFailed (message (TestTimeoutError_new (Num 40000))) \<in> set (actions st)"
proof -
  let ?tests = "[(graded_test, five_world), (input_test, minute_world), (graded_test, five_world)]"
  have ends: "\<forall>tw\<in>set ?tests. run (fst tw) (lit ''/work'') (snd tw) \<noteq> None"
    by (simp add: run_five run_minute)
  have names: "map (name \<circ> fst) ?tests = [lit ''grade'', lit ''grade'', lit ''grade'']"
    by (simp add: graded_test_def input_test_def)
  have n: "name (fst (input_test, minute_world)) = lit ''grade''"
    by (simp add: graded_test_def input_test_def)
  from errors_caught_per_test [OF ends, of no_check_run "lit ''token''"] obtain st r where
    ra: "runAll no_check_run (lit ''token'') ?tests (lit ''/work'') = Some (st, r)"
    and order: "started (actions st) = map (name \<circ> fst) ?tests"
    and caught: "\<forall>tw fx e. tw \<in> set ?tests \<and> run (fst tw) (lit ''/work'') (snd tw) = Some (fx, Inl e)
          \<longrightarrow> failed st \<and> Log (Failed (name (fst tw))) \<in> set (actions st)
              \<and> SetFailed (message e) \<in> set (actions st)"
    and r: "r = Inr () \<or> (\<exists>p a e. no_check_run p a = Some e \<and> r = Inl e)"
    by blast
  have "r = Inr ()" using r by (simp add: no_check_run_def)
  moreover have "failed st \<and> Log (Failed (lit ''grade'')) \<in> set (actions st)
        \<and> SetFailed (message (TestTimeoutError_new (Num 40000))) \<in> set (actions st)"
    using caught [rule_format, of "(input_test, minute_world)"] run_minute [of "lit ''/work''"] n
    by simp
  ultimately show ?thesis using ra order names by simp
qed

text \<open>
  C9. Let every test of the list come to an end, and let one of them declare no points. Then
  \<open>runAll\<close> returns with \<open>failed\<close> set and the red line of that test logged: its score is not
  strictly equal to \<open>undefined\<close>, not even the score 0.
\<close>

theorem undeclared_points_fail:
  assumes "\<forall>tw\<in>set tests. run (fst tw) cwd (snd tw) \<noteq> None"
    and "tw \<in> set tests" and "points (fst tw) = None"
  shows "\<exists>st r. runAll check_run token tests cwd = Some (st, r)
       \<and> failed st \<and> Log (Failed (name (fst tw))) \<in> set (actions st)
       \<and> \<not> strict_eq (Num 0) (points (fst tw))"
proof -
  let ?st0 = "\<lparr>total = Num 0, availablePoints = Num 0, failed = False,
                 actions = [Log Blank, Log (StopCommands token), Log Blank]\<rparr>"
  from run_tests_returns [OF assms(1)] obtain st1 where st1: "run_tests cwd ?st0 tests = Some st1"
    by blast
  from runAll_Some [OF st1, of check_run] obtain st r ext where
    ra: "runAll check_run token tests cwd = Some (st, r)"
    and act: "actions st = actions st1 @ ext" and f: "failed st = failed st1"
    by blast
  from run_tests_member [OF st1 assms(2)] obtain sa sb ext2 where
    sb: "run_test cwd sa tw = Some sb" and a2: "actions st1 = actions sb @ ext2"
    and fm: "failed sb \<longrightarrow> failed st1"
    by blast
  have ne: "\<not> strict_eq v (points (fst tw))" for v
    by (simp add: assms(3))
  from run_test_Some [OF sb] obtain fx r' tail where
    a: "actions sb = actions sa @ [Log (Header (name (fst tw))), Log Blank] @ fx @ tail"
    and c: "case r' of
          Inl e \<Rightarrow> tail = [Log Blank, Log (Failed (name (fst tw))), SetFailed (message e)]
                   \<and> failed sb \<and> total sb = total sa
        | Inr v \<Rightarrow> total sb = num_add (total sa) v
                   \<and> (if strict_eq v (points (fst tw))
                       then tail = [Log Blank, Log (Passed (name (fst tw))), Log Blank]
                            \<and> failed sb = failed sa
                       else tail = [Log Blank, Log (Failed (name (fst tw))), Log Blank]
                            \<and> failed sb)"
    by blast
  have "failed sb \<and> Log (Failed (name (fst tw))) \<in> set tail"
    using c ne by (cases r') simp_all
  with a have "failed sb \<and> Log (Failed (name (fst tw))) \<in> set (actions sb)" by simp
  with fm f act a2 ra ne [of "Num 0"] show ?thesis by auto
qed

theorem undeclared_points_fail_witness:
  "map_option snd (run ungraded_test (lit ''/work'') silent_world) = Some (Inr (Num 0))
   \<and> (\<exists>st r. runAll no_check_run (lit ''token'') [(ungraded_test, silent_world)] (lit ''/work'')
               = Some (st, r)
            \<and> failed st \<and> Log (Failed (lit ''lint'')) \<in> set (actions st))"
proof -
  have ends: "\<forall>tw\<in>set [(ungraded_test, silent_world)]. run (fst tw) (lit ''/work'') (snd tw) \<noteq> None"
    by (simp add: run_silent)
  have p: "points (fst (ungraded_test, silent_world)) = None"
    "name (fst (ungraded_test, silent_world)) = lit ''lint''"
    by (simp_all add: ungraded_test_def)
  show ?thesis
    using undeclared_points_fail [OF ends _ p(1), of no_check_run "lit ''token''"] p(2)
          run_silent [of "lit ''/work''"]
    by auto
qed

text \<open>
  C10. Let every test of the list come to an end, and let the main command of one of them exit
  with code 0 after an output that ends in \<^verbatim>\<open>[overall score: ]\<close> and white space. Then the match
  succeeds with an empty capture, \<open>parseFloat\<close> of it is \<open>NaN\<close>, and \<open>run\<close> returns \<open>NaN\<close>. The rounded
  total of \<open>runAll\<close> is \<open>NaN\<close>, which is not greater than 0, and none of the three actions of the
  points summary takes place.
\<close>

theorem empty_score_is_NaN:
  assumes "\<forall>tw\<in>set tests. run (fst tw) cwd (snd tw) \<noteq> None"
    and "tw \<in> set tests"
    and "runSetup (fst tw) cwd (timeout_ms (fst tw)) (setup_events (snd tw)) = Some (fxs, Inr ())"
    and "run_events (snd tw) = before @ Exit (Some 0) signal # later"
    and "list_all is_data before"
    and "stdout_of before = pre @ lit ''[overall score: ]'' @ ws"
    and "list_all is_space ws"
  shows "regexp_exec (stdout_of before) = Some []
       \<and> parseFloat [] = NaN
       \<and> map_option snd (run (fst tw) cwd (snd tw)) = Some (Inr NaN)
       \<and> (\<exists>st. runAll check_run token tests cwd = Some (st, Inr ())
               \<and> total st = NaN \<and> \<not> num_gt (total st) (Num 0)
               \<and> filter is_summary (actions st) = [])"
proof -
  let ?st0 = "\<lparr>total = Num 0, availablePoints = Num 0, failed = False,
                 actions = [Log Blank, Log (StopCommands token), Log Blank]\<rparr>"
  have lit_eq: "lit ''[overall score: ]'' @ ws = marker_open @ [] @ rbracket # ws"
    by (simp add: lit_def marker_open_def rbracket_def)
  have "matches_at (lit ''[overall score: ]'' @ ws) []"
    unfolding lit_eq matches_at_def using assms(7) by auto
  from regexp_exec_marker_at_end [OF this, of pre]
  have ex: "regexp_exec (stdout_of before) = Some []" by (simp add: assms(6))
  have pf: "parseFloat [] = NaN" by (simp add: parseFloat_def)
  have sc: "extract_score (stdout_of before) = NaN" by (simp add: extract_score_def ex pf)
  have "\<exists>fx. run (fst tw) cwd (snd tw) = Some (fx, Inr NaN)"
    unfolding run_def assms(3) assms(4) by (simp add: runCommand_exit [OF assms(5)] sc)
  then obtain fx where run: "run (fst tw) cwd (snd tw) = Some (fx, Inr NaN)" by blast
  from run_tests_returns [OF assms(1)] obtain st1 where st1: "run_tests cwd ?st0 tests = Some st1"
    by blast
  from run_tests_member [OF st1 assms(2)] obtain sa sb ext2 where
    sb: "run_test cwd sa tw = Some sb" and nm: "total sb = NaN \<longrightarrow> total st1 = NaN"
    by blast
  from run_test_Some [OF sb] run have "total sb = num_add (total sa) NaN" by auto
  with nm have t1: "total st1 = NaN" by (simp add: num_add_NaN_right)
  from run_tests_mono [OF st1] obtain ext1 where
    e1: "actions st1 = actions ?st0 @ ext1" "filter is_summary ext1 = []"
    by blast
  from runAll_Some [OF st1, of check_run] t1 obtain st r ext where
    ra: "runAll check_run token tests cwd = Some (st, r)"
    and act: "actions st = actions st1 @ ext" and t: "total st = NaN"
    and r: "r = Inr ()" "filter is_summary ext = []"
    by auto
  have "filter is_summary (actions st) = []" using act e1 r(2) by simp
  with ra r(1) t ex pf run show ?thesis by simp
qed

theorem empty_score_is_NaN_witness:
  "map_option snd (run graded_test (lit ''/work'') empty_marker_world) = Some (Inr NaN)
   \<and> (\<exists>st. runAll no_check_run (lit ''token'')
              [(graded_test, five_world), (graded_test, empty_marker_world), (graded_test, five_world)]
              (lit ''/work'') = Some (st, Inr ())
          \<and> total st = NaN \<and> filter is_summary (actions st) = [])"
proof -
  let ?tests = "[(graded_test, five_world), (graded_test, empty_marker_world), (graded_test, five_world)]"
  let ?b = "[StdoutData (lit ''done\<newline>[overall score: ]\<newline>'')]"
  have ends: "\<forall>tw\<in>set ?tests. run (fst tw) (lit ''/work'') (snd tw) \<noteq> None"
    using run_empty_marker [of "lit ''/work''"] by (simp add: run_five)
  have mem: "(graded_test, empty_marker_world) \<in> set ?tests" by simp
  have su: "runSetup (fst (graded_test, empty_marker_world)) (lit ''/work'')
              (timeout_ms (fst (graded_test, empty_marker_world)))
              (setup_events (snd (graded_test, empty_marker_world))) = Some ([], Inr ())"
    by (simp add: runSetup_def graded_test_def)
  have ev: "run_events (snd (graded_test, empty_marker_world)) = ?b @ Exit (Some 0) None # []"
    by (simp add: empty_marker_world_def)
  have d: "list_all is_data ?b" by simp
  have so: "stdout_of ?b = lit ''done\<newline>'' @ lit ''[overall score: ]'' @ [0x0A]"
    by (simp add: lit_def)
  have ws: "list_all is_space [0x0A]" by (simp add: is_space_def)
  show ?thesis
    using empty_score_is_NaN [OF ends mem su ev d so ws, of no_check_run "lit ''token''"]
    by auto
qed

end
